theory Spec2Isabelle
  imports Complex_Main "HOL-Library.AList" "HOL-Library.Multiset"
begin

section \<open>The host object model\<close>

text \<open>
  The library is TypeScript: its functions work on arbitrary JavaScript values, read and
  write members of objects that live in a shared heap, and call functions they are handed.
  The model makes that explicit.

  \<^item> A value is a primitive or a reference to a heap object. A number is \<open>NaN\<close>, an
    infinity or a finite number; the finite doubles are a subset of the rationals and no
    function below computes with them.
  \<^item> A heap object is a plain object (its members, the methods of its class among them),
    an array, a \<open>Map\<close> or a function. The heap is the list of all objects, an address is
    an index into it, and allocation appends.
  \<^item> A computation takes the heap and returns a fault or a value, together with the heap
    it leaves behind. JavaScript keeps the writes made before an exception, so the
    heap is returned in both cases.
  \<^item> What a user-supplied function does when called is a parameter (\<open>call_fn\<close>), as are
    the members inherited from built-in prototypes and the members of primitives
    (\<open>proto_member\<close>), what the host does with a write that an inherited accessor or a
    read-only member takes over (\<open>write_trap\<close>), and the host's arithmetic
    (\<open>Math.max\<close>, \<open>Math.min\<close>, \<open>+\<close>, \<open><\<close>), which reads the heap and may fault.
  \<^item> A callback handed to an array method is a function of its arguments and the heap
    that may fault and does not write.
  The members an object holds are data properties named by strings: symbols, own accessor
  properties and proxies are outside the model, and the places where the model stops
  return the fault \<open>Unmodelled\<close>.

  The repository holds the macros twice. The documented index (the file with the doc
  comments) has the resolver with the \<open>get\<close> and \<open>set\<close> dispatch, \<open>getArray\<close> and
  the copying \<open>sort\<close>; src/utils/index.ts exports the same resolver. The older
  src/index.ts has private helpers of its own. Both are modelled; the definitions of the
  older file carry the prefix \<open>index_\<close>.
\<close>

type_synonym addr = nat

type_synonym fid = nat

datatype number = Fin rat | NaN | PosInf | NegInf

datatype builtin = MapGet | MapSet

datatype val =
    Undefined
  | Null
  | Bool bool
  | Num number
  | Str string
  | Ref addr
  | Builtin builtin

datatype obj =
    Obj "(string \<times> val) list"
  | Arr "val list"
  | MapObj "(val \<times> val) list"
  | Fun fid

type_synonym heap = "obj list"

datatype error =
    NullAccess
  | NotAFunction
  | BadReceiver
  | NotIterable
  | NoSetter
  | PrimitiveWrite
  | Thrown val
  | Unmodelled

type_synonym 'a comp = "heap \<Rightarrow> (error + 'a) \<times> heap"

record host =
  call_fn :: "fid \<Rightarrow> val \<Rightarrow> val list \<Rightarrow> heap \<Rightarrow> (error + val) \<times> heap"
  proto_member :: "obj option \<Rightarrow> val \<Rightarrow> string \<Rightarrow> val"
  write_trap ::
    "obj option \<Rightarrow> val \<Rightarrow> string \<Rightarrow> (val \<Rightarrow> heap \<Rightarrow> (error + val) \<times> heap) option"
  math_max :: "val list \<Rightarrow> heap \<Rightarrow> error + val"
  math_min :: "val list \<Rightarrow> heap \<Rightarrow> error + val"
  js_add :: "val \<Rightarrow> val \<Rightarrow> heap \<Rightarrow> error + val"
  js_lt :: "val \<Rightarrow> val \<Rightarrow> heap \<Rightarrow> error + bool"

definition ret :: "'a \<Rightarrow> 'a comp" where
  "ret x h = (Inr x, h)"

definition throw :: "error \<Rightarrow> 'a comp" where
  "throw e h = (Inl e, h)"

definition andThen :: "'a comp \<Rightarrow> ('a \<Rightarrow> 'b comp) \<Rightarrow> 'b comp" where
  "andThen m f h = (case m h of (Inl e, h') \<Rightarrow> (Inl e, h') | (Inr x, h') \<Rightarrow> f x h')"

text \<open>A read-only step: it may fault, and leaves the heap as it is.\<close>

definition readOnly :: "(heap \<Rightarrow> error + 'a) \<Rightarrow> 'a comp" where
  "readOnly f h = (f h, h)"

definition thenE :: "error + 'a \<Rightarrow> ('a \<Rightarrow> error + 'b) \<Rightarrow> error + 'b" where
  "thenE r f = (case r of Inl e \<Rightarrow> Inl e | Inr x \<Rightarrow> f x)"

definition obj_at :: "heap \<Rightarrow> addr \<Rightarrow> obj option" where
  "obj_at h a = (if a < length h then Some (h ! a) else None)"

definition alloc :: "obj \<Rightarrow> val comp" where
  "alloc ob h = (Inr (Ref (length h)), h @ [ob])"

definition nullish :: "val \<Rightarrow> bool" where
  "nullish v = (v = Undefined \<or> v = Null)"

text \<open>\<open>Boolean(v)\<close>, and the operators \<open>&&\<close>, \<open>||\<close> and \<open>===\<close>.\<close>

fun truthy :: "val \<Rightarrow> bool" where
  "truthy Undefined = False"
| "truthy Null = False"
| "truthy (Bool b) = b"
| "truthy (Num (Fin q)) = (q \<noteq> 0)"
| "truthy (Num NaN) = False"
| "truthy (Num PosInf) = True"
| "truthy (Num NegInf) = True"
| "truthy (Str s) = (s \<noteq> [])"
| "truthy (Ref a) = True"
| "truthy (Builtin b) = True"

definition js_and :: "val \<Rightarrow> val \<Rightarrow> val" where
  "js_and a b = (if truthy a then b else a)"

definition js_or :: "val \<Rightarrow> val \<Rightarrow> val" where
  "js_or a b = (if truthy a then a else b)"

definition strict_eq :: "val \<Rightarrow> val \<Rightarrow> bool" where
  "strict_eq a b = (a = b \<and> a \<noteq> Num NaN)"

text \<open>
  An array index is a canonical decimal numeral: \<open>0\<close>, or digits that do not start
  with \<open>0\<close>.
\<close>

definition digit_of :: "char \<Rightarrow> nat option" where
  "digit_of c =
     (let n = (of_char c :: nat) in if 48 \<le> n \<and> n \<le> 57 then Some (n - 48) else None)"

fun digits_value :: "nat \<Rightarrow> string \<Rightarrow> nat option" where
  "digits_value acc [] = Some acc"
| "digits_value acc (c # cs) =
     (case digit_of c of None \<Rightarrow> None | Some d \<Rightarrow> digits_value (10 * acc + d) cs)"

definition array_index :: "string \<Rightarrow> nat option" where
  "array_index s =
     (if s = [] then None
      else if hd s = CHR ''0'' \<and> 1 < length s then None
      else digits_value 0 s)"

text \<open>
  Direct member lookup \<open>v[k]\<close> on a value that is neither \<open>null\<close> nor \<open>undefined\<close>:
  an own member of a plain object, the length or an element of an array, the native
  \<open>get\<close> and \<open>set\<close> of a \<open>Map\<close>; every other name is looked up in the prototype,
  which the host answers from the object (none for a primitive), the value and the name.
\<close>

definition member :: "host \<Rightarrow> heap \<Rightarrow> val \<Rightarrow> string \<Rightarrow> val" where
  "member H h v k =
     (case v of
        Ref a \<Rightarrow>
          (case obj_at h a of
             Some (Obj ps) \<Rightarrow>
               (case map_of ps k of
                  Some x \<Rightarrow> x
                | None \<Rightarrow> proto_member H (Some (Obj ps)) v k)
           | Some (Arr xs) \<Rightarrow>
               (if k = ''length'' then Num (Fin (of_nat (length xs)))
                else (case array_index k of
                        Some i \<Rightarrow>
                          (if i < length xs then xs ! i
                           else proto_member H (Some (Arr xs)) v k)
                      | None \<Rightarrow> proto_member H (Some (Arr xs)) v k))
           | Some (MapObj es) \<Rightarrow>
               (if k = ''get'' then Builtin MapGet
                else if k = ''set'' then Builtin MapSet
                else proto_member H (Some (MapObj es)) v k)
           | Some (Fun f) \<Rightarrow> proto_member H (Some (Fun f)) v k
           | None \<Rightarrow> Undefined)
      | _ \<Rightarrow> proto_member H None v k)"

text \<open>The expression \<open>v[k]\<close>: a fault on \<open>null\<close> and \<open>undefined\<close>.\<close>

definition member_of :: "host \<Rightarrow> heap \<Rightarrow> val \<Rightarrow> string \<Rightarrow> error + val" where
  "member_of H h v k = (if nullish v then Inl NullAccess else Inr (member H h v k))"

definition lookup :: "host \<Rightarrow> val \<Rightarrow> string \<Rightarrow> val comp" where
  "lookup H v k = readOnly (\<lambda>h. member_of H h v k)"

text \<open>\<open>typeof v === 'function'\<close>.\<close>

definition is_function :: "heap \<Rightarrow> val \<Rightarrow> bool" where
  "is_function h v =
     (case v of
        Builtin b \<Rightarrow> True
      | Ref a \<Rightarrow> (case obj_at h a of Some (Fun f) \<Rightarrow> True | _ \<Rightarrow> False)
      | _ \<Rightarrow> False)"

definition arg_at :: "val list \<Rightarrow> nat \<Rightarrow> val" where
  "arg_at args i = (if i < length args then args ! i else Undefined)"

definition entries_of :: "heap \<Rightarrow> val \<Rightarrow> (val \<times> val) list option" where
  "entries_of h v =
     (case v of
        Ref a \<Rightarrow> (case obj_at h a of Some (MapObj es) \<Rightarrow> Some es | _ \<Rightarrow> None)
      | _ \<Rightarrow> None)"

text \<open>
  The call \<open>f.call(this, ...args)\<close>. \<open>Map.prototype.get\<close> and \<open>Map.prototype.set\<close>
  fault on a receiver that is not a \<open>Map\<close>; what a user function does is the host's
  \<open>call_fn\<close>.
\<close>

definition call :: "host \<Rightarrow> val \<Rightarrow> val \<Rightarrow> val list \<Rightarrow> val comp" where
  "call H f this args h =
     (case f of
        Builtin MapGet \<Rightarrow>
          (case entries_of h this of
             Some es \<Rightarrow>
               (Inr (case map_of es (arg_at args 0) of Some x \<Rightarrow> x | None \<Rightarrow> Undefined), h)
           | None \<Rightarrow> (Inl BadReceiver, h))
      | Builtin MapSet \<Rightarrow>
          (case this of
             Ref a \<Rightarrow>
               (case obj_at h a of
                  Some (MapObj es) \<Rightarrow>
                    (Inr this,
                     h[a := MapObj (AList.update (arg_at args 0) (arg_at args 1) es)])
                | _ \<Rightarrow> (Inl BadReceiver, h))
           | _ \<Rightarrow> (Inl BadReceiver, h))
      | Ref a \<Rightarrow>
          (case obj_at h a of
             Some (Fun g) \<Rightarrow> call_fn H g this args h
           | _ \<Rightarrow> (Inl NotAFunction, h))
      | _ \<Rightarrow> (Inl NotAFunction, h))"

text \<open>
  Direct member assignment \<open>v[k] = x\<close>. The host is asked first: where an inherited
  accessor or a read-only member takes the write over (\<open>__proto__\<close> on an ordinary
  object, any member of a frozen one), what happens instead (the setter runs, the write
  faults or is dropped) is the host's \<open>write_trap\<close>, and the assignment stores nothing
  itself. Otherwise a plain object gets or updates the member, an array element in range
  is replaced, the index just past the end appends, and a primitive faults.
\<close>

definition assign :: "host \<Rightarrow> val \<Rightarrow> string \<Rightarrow> val \<Rightarrow> val comp" where
  "assign H v k x h =
     (if nullish v then (Inl NullAccess, h)
      else
        (case write_trap H (case v of Ref a \<Rightarrow> obj_at h a | _ \<Rightarrow> None) v k of
           Some trap \<Rightarrow> andThen (trap x) (\<lambda>_. ret x) h
         | None \<Rightarrow>
             (case v of
                Ref a \<Rightarrow>
                  (case obj_at h a of
                     Some (Obj ps) \<Rightarrow> (Inr x, h[a := Obj (AList.update k x ps)])
                   | Some (Arr xs) \<Rightarrow>
                       (case array_index k of
                          Some i \<Rightarrow>
                            (if i < length xs then (Inr x, h[a := Arr (xs[i := x])])
                             else if i = length xs then (Inr x, h[a := Arr (xs @ [x])])
                             else (Inl Unmodelled, h))
                        | None \<Rightarrow> (Inl Unmodelled, h))
                   | _ \<Rightarrow> (Inl Unmodelled, h))
              | _ \<Rightarrow> (Inl PrimitiveWrite, h))))"

section \<open>Strings\<close>

text \<open>\<open>path.split('.')\<close>, \<open>path.lastIndexOf('.')\<close> and \<open>path.substr(start, length)\<close>.\<close>

fun split_on :: "char \<Rightarrow> string \<Rightarrow> string list" where
  "split_on c [] = [[]]"
| "split_on c (x # xs) =
     (if x = c then [] # split_on c xs
      else (case split_on c xs of [] \<Rightarrow> [[x]] | w # ws \<Rightarrow> (x # w) # ws))"

fun lastIndexOf_from :: "char \<Rightarrow> int \<Rightarrow> int \<Rightarrow> string \<Rightarrow> int" where
  "lastIndexOf_from c i found [] = found"
| "lastIndexOf_from c i found (x # xs) =
     lastIndexOf_from c (i + 1) (if x = c then i else found) xs"

definition lastIndexOf :: "string \<Rightarrow> char \<Rightarrow> int" where
  "lastIndexOf s c = lastIndexOf_from c 0 (- 1) s"

definition substr :: "string \<Rightarrow> int \<Rightarrow> int option \<Rightarrow> string" where
  "substr s start len =
     (let n = int (length s);
          from = (if start < 0 then max (n + start) 0 else min start n);
          count = (case len of None \<Rightarrow> n - from | Some l \<Rightarrow> min (max l 0) (n - from))
      in take (nat count) (drop (nat from) s))"

section \<open>The path resolver (src/utils/index.ts, and the copy in the documented index)\<close>

text \<open>
  \<open>getPath\<close>: the loop over the segments, with its \<open>break\<close> on a nullish current
  value.
\<close>

fun getPath_loop :: "host \<Rightarrow> val \<Rightarrow> string list \<Rightarrow> val comp" where
  "getPath_loop H current [] h = (Inr current, h)"
| "getPath_loop H current (segment # segments) h =
     (if current = Undefined \<or> current = Null then (Inr current, h)
      else
        (case (if is_function h (member H h current ''get'')
               then call H (member H h current ''get'') current [Str segment] h
               else lookup H current segment h) of
           (Inl e, h') \<Rightarrow> (Inl e, h')
         | (Inr next, h') \<Rightarrow> getPath_loop H next segments h'))"

definition getPath :: "host \<Rightarrow> val \<Rightarrow> string \<Rightarrow> val comp" where
  "getPath H ob path = getPath_loop H ob (split_on CHR ''.'' path)"

text \<open>\<open>paths.map(f)\<close>: the elements in order, each in the heap the one before left.\<close>

fun mapM :: "('a \<Rightarrow> 'b comp) \<Rightarrow> 'a list \<Rightarrow> 'b list comp" where
  "mapM f [] = ret []"
| "mapM f (x # xs) = andThen (f x) (\<lambda>y. andThen (mapM f xs) (\<lambda>ys. ret (y # ys)))"

definition getPaths :: "host \<Rightarrow> val \<Rightarrow> string list \<Rightarrow> val list comp" where
  "getPaths H ob paths = mapM (\<lambda>p. getPath H ob p) paths"

definition setPath :: "host \<Rightarrow> val \<Rightarrow> string \<Rightarrow> val \<Rightarrow> val comp" where
  "setPath H ob path x =
     (let objPath = substr path 0 (Some (lastIndexOf path CHR ''.''));
          key = substr path (lastIndexOf path CHR ''.'' + 1) None
      in andThen (if objPath \<noteq> [] then getPath H ob objPath else ret ob)
           (\<lambda>resolvedObj.
              andThen (lookup H resolvedObj ''set'')
                (\<lambda>setter h.
                   if is_function h setter
                   then andThen (call H setter resolvedObj [Str key, x]) (\<lambda>_. ret Undefined) h
                   else andThen (assign H resolvedObj key x) (\<lambda>_. ret Undefined) h)))"

section \<open>The older private helpers of src/index.ts\<close>

fun index_getPath_loop :: "host \<Rightarrow> val \<Rightarrow> string list \<Rightarrow> val comp" where
  "index_getPath_loop H current [] h = (Inr current, h)"
| "index_getPath_loop H current (segment # segments) h =
     (if current = Undefined \<or> current = Null then (Inr current, h)
      else
        (case lookup H current segment h of
           (Inl e, h') \<Rightarrow> (Inl e, h')
         | (Inr next, h') \<Rightarrow> index_getPath_loop H next segments h'))"

definition index_getPath :: "host \<Rightarrow> val \<Rightarrow> string \<Rightarrow> val comp" where
  "index_getPath H ob path = index_getPath_loop H ob (split_on CHR ''.'' path)"

definition index_getPaths :: "host \<Rightarrow> val \<Rightarrow> string list \<Rightarrow> val list comp" where
  "index_getPaths H ob paths = mapM (\<lambda>p. lookup H ob p) paths"

section \<open>The resolver in the words of the spec\<close>

text \<open>
  Section 4.1 of the spec, word for word: starting with the root, the segments are
  consumed in order; a current value that is \<open>null\<close> or \<open>undefined\<close> is the result;
  otherwise the next value is \<open>current.get(segment)\<close> when \<open>current\<close> exposes a
  callable member named \<open>get\<close>, and \<open>current[segment]\<close> when it does not.
\<close>

definition spec_step :: "host \<Rightarrow> val \<Rightarrow> string \<Rightarrow> val comp" where
  "spec_step H current segment h =
     (if nullish current then (Inr current, h)
      else if is_function h (member H h current ''get'')
      then call H (member H h current ''get'') current [Str segment] h
      else (Inr (member H h current segment), h))"

fun spec_resolve :: "host \<Rightarrow> val \<Rightarrow> string list \<Rightarrow> val comp" where
  "spec_resolve H current [] = ret current"
| "spec_resolve H current (segment # segments) =
     andThen (spec_step H current segment) (\<lambda>next. spec_resolve H next segments)"

text \<open>A host whose user functions write nothing to the heap.\<close>

definition writes_nothing :: "host \<Rightarrow> bool" where
  "writes_nothing H = (\<forall>f this args h. snd (call_fn H f this args h) = h)"

section \<open>The accessor synthesizer\<close>

text \<open>
  A macro getter receives the receiver \<open>this\<close>, the instance and the key of the field;
  a macro setter receives the value as well. \<open>macro\<close> takes a getter function or a
  descriptor with an optional getter and an optional setter, and returns the decorator:
  from the key of the decorated field (the target is ignored) to the property descriptor,
  which has a \<open>get\<close> only when there is a getter and a \<open>set\<close> only when there is a
  setter.
\<close>

type_synonym macro_getter = "val \<Rightarrow> val \<Rightarrow> string \<Rightarrow> val comp"

type_synonym macro_setter = "val \<Rightarrow> val \<Rightarrow> string \<Rightarrow> val \<Rightarrow> val comp"

datatype macro_definition =
    GetterFn macro_getter
  | Descriptor "macro_getter option" "macro_setter option"

record descriptor =
  desc_get :: "(val \<Rightarrow> val comp) option"
  desc_set :: "(val \<Rightarrow> val \<Rightarrow> val comp) option"

definition macro :: "macro_definition \<Rightarrow> string \<Rightarrow> descriptor" where
  "macro def key =
     (let getter = (case def of GetterFn f \<Rightarrow> Some f | Descriptor g s \<Rightarrow> g);
          setter = (case def of GetterFn f \<Rightarrow> None | Descriptor g s \<Rightarrow> s)
      in \<lparr> desc_get =
             (case getter of None \<Rightarrow> None | Some g \<Rightarrow> Some (\<lambda>this. g this this key)),
           desc_set =
             (case setter of None \<Rightarrow> None
              | Some s \<Rightarrow> Some (\<lambda>this x. s this this key x)) \<rparr>)"

text \<open>
  Modelled from the spec: the host's access to a field that carries a property
  descriptor (section 4.2, "On read" and "On write"). A read calls the descriptor's
  \<open>get\<close> on the instance and is \<open>undefined\<close> when there is none; a write calls its
  \<open>set\<close>, discards what it returns, and is the "no setter" fault when there is none.
\<close>

definition read_field :: "descriptor \<Rightarrow> val \<Rightarrow> val comp" where
  "read_field d inst =
     (case desc_get d of None \<Rightarrow> ret Undefined | Some g \<Rightarrow> g inst)"

definition write_field :: "descriptor \<Rightarrow> val \<Rightarrow> val \<Rightarrow> unit comp" where
  "write_field d inst x =
     (case desc_set d of
        None \<Rightarrow> throw NoSetter
      | Some s \<Rightarrow> andThen (s inst x) (\<lambda>_. ret ()))"

section \<open>Aliasing and logical macros\<close>

text \<open>An argument that the caller left out reads as \<open>undefined\<close>.\<close>

definition arg :: "val option \<Rightarrow> val" where
  "arg a = (case a of None \<Rightarrow> Undefined | Some v \<Rightarrow> v)"

definition reads :: "host \<Rightarrow> string \<Rightarrow> val option \<Rightarrow> string \<Rightarrow> descriptor" where
  "reads H path defaultValue =
     macro (GetterFn (\<lambda>this ob key.
       andThen (getPath H ob path)
         (\<lambda>v h.
            if v = Null \<or> v = Undefined
            then (if is_function h (arg defaultValue)
                  then call H (arg defaultValue) Undefined [] h
                  else ret (arg defaultValue) h)
            else ret v h)))"

text \<open>\<open>xs.reduce(f, seed)\<close> with a pure \<open>f\<close> is a left fold.\<close>

definition and_macro :: "host \<Rightarrow> string list \<Rightarrow> string \<Rightarrow> descriptor" where
  "and_macro H paths =
     macro (GetterFn (\<lambda>this ob key.
       andThen (getPaths H ob paths) (\<lambda>vs. ret (foldl js_and (Bool True) vs))))"

definition or_macro :: "host \<Rightarrow> string list \<Rightarrow> string \<Rightarrow> descriptor" where
  "or_macro H paths =
     macro (GetterFn (\<lambda>this ob key.
       andThen (getPaths H ob paths) (\<lambda>vs. ret (foldl js_or (Bool False) vs))))"

definition index_and :: "host \<Rightarrow> string list \<Rightarrow> string \<Rightarrow> descriptor" where
  "index_and H paths =
     macro (GetterFn (\<lambda>this ob key.
       andThen (index_getPaths H ob paths) (\<lambda>vs. ret (foldl js_and (Bool True) vs))))"

definition index_or :: "host \<Rightarrow> string list \<Rightarrow> string \<Rightarrow> descriptor" where
  "index_or H paths =
     macro (GetterFn (\<lambda>this ob key.
       andThen (index_getPaths H ob paths) (\<lambda>vs. ret (foldl js_or (Bool False) vs))))"

section \<open>Array methods of the host\<close>

type_synonym callback = "val \<Rightarrow> nat \<Rightarrow> val \<Rightarrow> heap \<Rightarrow> error + val"

type_synonym comparator = "val \<Rightarrow> val \<Rightarrow> heap \<Rightarrow> error + number"

text \<open>
  The receiver of an array method \<open>v.m(...)\<close>: the elements when \<open>v\<close> is an array,
  the fault of calling a member that is not a function otherwise. A value that is not an
  array and brings a method \<open>m\<close> of its own is outside the model.
\<close>

definition elements :: "host \<Rightarrow> val \<Rightarrow> string \<Rightarrow> val list comp" where
  "elements H v m h =
     (let other = (if is_function h (member H h v m) then Inl Unmodelled else Inl NotAFunction)
      in if nullish v then (Inl NullAccess, h)
         else (case v of
                 Ref a \<Rightarrow> (case obj_at h a of Some (Arr xs) \<Rightarrow> (Inr xs, h) | _ \<Rightarrow> (other, h))
               | _ \<Rightarrow> (other, h)))"

fun filter_from :: "(val \<Rightarrow> nat \<Rightarrow> error + val) \<Rightarrow> nat \<Rightarrow> val list \<Rightarrow> error + val list" where
  "filter_from fn i [] = Inr []"
| "filter_from fn i (x # xs) =
     thenE (fn x i) (\<lambda>keep.
       thenE (filter_from fn (Suc i) xs) (\<lambda>ys. Inr (if truthy keep then x # ys else ys)))"

fun map_from :: "(val \<Rightarrow> nat \<Rightarrow> error + val) \<Rightarrow> nat \<Rightarrow> val list \<Rightarrow> error + val list" where
  "map_from fn i [] = Inr []"
| "map_from fn i (x # xs) =
     thenE (fn x i) (\<lambda>y. thenE (map_from fn (Suc i) xs) (\<lambda>ys. Inr (y # ys)))"

definition array_filter :: "host \<Rightarrow> callback \<Rightarrow> val \<Rightarrow> val comp" where
  "array_filter H fn arr =
     andThen (elements H arr ''filter'')
       (\<lambda>xs. andThen (readOnly (\<lambda>h. filter_from (\<lambda>v i. fn v i arr h) 0 xs))
          (\<lambda>ys. alloc (Arr ys)))"

definition array_map :: "host \<Rightarrow> callback \<Rightarrow> val \<Rightarrow> val comp" where
  "array_map H fn arr =
     andThen (elements H arr ''map'')
       (\<lambda>xs. andThen (readOnly (\<lambda>h. map_from (\<lambda>v i. fn v i arr h) 0 xs))
          (\<lambda>ys. alloc (Arr ys)))"

definition array_slice :: "host \<Rightarrow> val \<Rightarrow> val comp" where
  "array_slice H arr = andThen (elements H arr ''slice'') (\<lambda>xs. alloc (Arr xs))"

text \<open>
  \<open>Array.prototype.sort\<close> sorts in place and returns its receiver. ECMAScript puts
  \<open>undefined\<close> last without asking the comparator, reads a \<open>NaN\<close> result as zero,
  asks for a stable sort, and leaves the order open when the comparator is inconsistent;
  the model is the stable insertion sort.
\<close>

definition positive :: "number \<Rightarrow> bool" where
  "positive n = (case n of Fin q \<Rightarrow> 0 < q | PosInf \<Rightarrow> True | _ \<Rightarrow> False)"

definition sorts_after :: "comparator \<Rightarrow> heap \<Rightarrow> val \<Rightarrow> val \<Rightarrow> error + bool" where
  "sorts_after fn h x y =
     (if x = Undefined then Inr (y \<noteq> Undefined)
      else if y = Undefined then Inr False
      else thenE (fn x y h) (\<lambda>n. Inr (positive n)))"

fun insert_sorted :: "(val \<Rightarrow> val \<Rightarrow> error + bool) \<Rightarrow> val \<Rightarrow> val list \<Rightarrow> error + val list" where
  "insert_sorted after x [] = Inr [x]"
| "insert_sorted after x (y # ys) =
     thenE (after y x) (\<lambda>b.
       if b then Inr (x # y # ys)
       else thenE (insert_sorted after x ys) (\<lambda>zs. Inr (y # zs)))"

fun sort_into :: "(val \<Rightarrow> val \<Rightarrow> error + bool) \<Rightarrow> val list \<Rightarrow> val list \<Rightarrow> error + val list" where
  "sort_into after acc [] = Inr acc"
| "sort_into after acc (x # xs) =
     thenE (insert_sorted after x acc) (\<lambda>acc'. sort_into after acc' xs)"

definition array_sort :: "host \<Rightarrow> comparator \<Rightarrow> val \<Rightarrow> val comp" where
  "array_sort H fn arr =
     andThen (elements H arr ''sort'')
       (\<lambda>xs. andThen (readOnly (\<lambda>h. sort_into (sorts_after fn h) [] xs))
          (\<lambda>ys h. case arr of
                     Ref a \<Rightarrow> (Inr arr, h[a := Arr ys])
                   | _ \<Rightarrow> (Inl Unmodelled, h)))"

text \<open>The spread \<open>...v\<close> of a value that is not nullish.\<close>

definition spread :: "val \<Rightarrow> val list comp" where
  "spread v h =
     (case v of
        Ref a \<Rightarrow>
          (case obj_at h a of
             Some (Arr xs) \<Rightarrow> (Inr xs, h)
           | Some (Obj ps) \<Rightarrow> (Inl NotIterable, h)
           | Some (Fun f) \<Rightarrow> (Inl NotIterable, h)
           | _ \<Rightarrow> (Inl Unmodelled, h))
      | Str s \<Rightarrow> (Inr (map (\<lambda>c. Str [c]) s), h)
      | _ \<Rightarrow> (Inl NotIterable, h))"

text \<open>A \<open>Set\<close> local to a getter: its elements in insertion order.\<close>

definition set_add :: "val list \<Rightarrow> val \<Rightarrow> val list" where
  "set_add s v = (if v \<in> set s then s else s @ [v])"

section \<open>Array macros (the documented index)\<close>

definition setFrom :: "host \<Rightarrow> val \<Rightarrow> val list comp" where
  "setFrom H arr = andThen (elements H arr ''forEach'') (\<lambda>xs. ret (foldl set_add [] xs))"

definition getArray :: "host \<Rightarrow> val \<Rightarrow> string \<Rightarrow> val comp" where
  "getArray H ob path =
     andThen (getPath H ob path) (\<lambda>v. if truthy v then ret v else alloc (Arr []))"

definition getArrays :: "host \<Rightarrow> val \<Rightarrow> string list \<Rightarrow> val list comp" where
  "getArrays H ob paths = mapM (\<lambda>p. getArray H ob p) paths"

definition getValues :: "val list \<Rightarrow> val comp" where
  "getValues s = alloc (Arr s)"

definition collect :: "host \<Rightarrow> string list \<Rightarrow> string \<Rightarrow> descriptor" where
  "collect H paths =
     macro (GetterFn (\<lambda>this ob key.
       andThen (getPaths H ob paths) (\<lambda>vs. alloc (Arr vs))))"

fun diff_loop :: "host \<Rightarrow> val \<Rightarrow> val list \<Rightarrow> val comp" where
  "diff_loop H intersect [] = ret intersect"
| "diff_loop H intersect (arr # arrays) =
     andThen (setFrom H arr)
       (\<lambda>values. andThen (array_filter H (\<lambda>v i a h. Inr (Bool (v \<notin> set values))) intersect)
          (\<lambda>intersect'. diff_loop H intersect' arrays))"

definition diff :: "host \<Rightarrow> string list \<Rightarrow> string \<Rightarrow> descriptor" where
  "diff H paths =
     macro (GetterFn (\<lambda>this ob key.
       if length paths = 0 then alloc (Arr [])
       else andThen (getArrays H ob paths)
              (\<lambda>arrays. case arrays of
                           [] \<Rightarrow> ret Undefined
                         | first # rest \<Rightarrow> diff_loop H first rest)))"

definition filter_macro :: "host \<Rightarrow> string \<Rightarrow> callback \<Rightarrow> string \<Rightarrow> descriptor" where
  "filter_macro H path fn =
     macro (GetterFn (\<lambda>this ob key.
       andThen (getArray H ob path) (\<lambda>arr. array_filter H fn arr)))"

definition filterBy :: "host \<Rightarrow> string \<Rightarrow> string \<Rightarrow> val option \<Rightarrow> string \<Rightarrow> descriptor" where
  "filterBy H path key val =
     (if arg val \<noteq> Undefined
      then filter_macro H path
             (\<lambda>v i a h. thenE (member_of H h v key) (\<lambda>x. Inr (Bool (strict_eq x (arg val)))))
      else filter_macro H path
             (\<lambda>v i a h. thenE (member_of H h v key) (\<lambda>x. Inr (Bool (truthy x)))))"

fun intersect_loop :: "host \<Rightarrow> val \<Rightarrow> val list \<Rightarrow> val comp" where
  "intersect_loop H intersect [] = ret intersect"
| "intersect_loop H intersect (arr # arrays) =
     andThen (setFrom H arr)
       (\<lambda>values. andThen (array_filter H (\<lambda>v i a h. Inr (Bool (v \<in> set values))) intersect)
          (\<lambda>intersect'. intersect_loop H intersect' arrays))"

definition intersect :: "host \<Rightarrow> string list \<Rightarrow> string \<Rightarrow> descriptor" where
  "intersect H paths =
     macro (GetterFn (\<lambda>this ob key.
       if length paths = 0 then alloc (Arr [])
       else andThen (getArrays H ob paths)
              (\<lambda>arrays. case arrays of
                           [] \<Rightarrow> ret Undefined
                         | first # rest \<Rightarrow> intersect_loop H first rest)))"

definition map_macro :: "host \<Rightarrow> string \<Rightarrow> callback \<Rightarrow> string \<Rightarrow> descriptor" where
  "map_macro H path fn =
     macro (GetterFn (\<lambda>this ob key.
       andThen (getArray H ob path) (\<lambda>arr. array_map H fn arr)))"

definition mapBy :: "host \<Rightarrow> string \<Rightarrow> string \<Rightarrow> string \<Rightarrow> descriptor" where
  "mapBy H path key = map_macro H path (\<lambda>v i a h. member_of H h v key)"

definition max_macro :: "host \<Rightarrow> string \<Rightarrow> string \<Rightarrow> descriptor" where
  "max_macro H path =
     macro (GetterFn (\<lambda>this ob key.
       andThen (getArray H ob path)
         (\<lambda>arr. andThen (spread arr) (\<lambda>xs. readOnly (math_max H xs)))))"

definition min_macro :: "host \<Rightarrow> string \<Rightarrow> string \<Rightarrow> descriptor" where
  "min_macro H path =
     macro (GetterFn (\<lambda>this ob key.
       andThen (getArray H ob path)
         (\<lambda>arr. andThen (spread arr) (\<lambda>xs. readOnly (math_min H xs)))))"

definition sort_macro :: "host \<Rightarrow> string \<Rightarrow> comparator \<Rightarrow> string \<Rightarrow> descriptor" where
  "sort_macro H path fn =
     macro (GetterFn (\<lambda>this ob key.
       andThen (getArray H ob path)
         (\<lambda>arr. andThen (array_slice H arr) (\<lambda>copy. array_sort H fn copy))))"

text \<open>
  The comparator of \<open>sortBy\<close>; \<open>asc\<close> is \<open>true\<close> when it is left out, and
  \<open>x > y\<close> is \<open>y < x\<close>.
\<close>

definition sortBy_compare :: "host \<Rightarrow> string \<Rightarrow> val option \<Rightarrow> comparator" where
  "sortBy_compare H key asc a b h =
     (let up = truthy (if arg asc = Undefined then Bool True else arg asc)
      in thenE (member_of H h a key) (\<lambda>ak.
         thenE (member_of H h b key) (\<lambda>bk.
         thenE (js_lt H ak bk h) (\<lambda>less.
           if less then Inr (if up then Fin (- 1) else Fin 1)
           else thenE (member_of H h a key) (\<lambda>ak'.
                thenE (member_of H h b key) (\<lambda>bk'.
                thenE (js_lt H bk' ak' h) (\<lambda>greater.
                  if greater then Inr (if up then Fin 1 else Fin (- 1))
                  else Inr (Fin 0))))))))"

definition sortBy :: "host \<Rightarrow> string \<Rightarrow> string \<Rightarrow> val option \<Rightarrow> string \<Rightarrow> descriptor" where
  "sortBy H path key asc = sort_macro H path (sortBy_compare H key asc)"

fun reduce_add :: "host \<Rightarrow> heap \<Rightarrow> val \<Rightarrow> val list \<Rightarrow> error + val" where
  "reduce_add H h s [] = Inr s"
| "reduce_add H h s (v # vs) = thenE (js_add H s v h) (\<lambda>s'. reduce_add H h s' vs)"

definition sum_macro :: "host \<Rightarrow> string \<Rightarrow> string \<Rightarrow> descriptor" where
  "sum_macro H path =
     macro (GetterFn (\<lambda>this ob key.
       andThen (getArray H ob path)
         (\<lambda>arr. andThen (elements H arr ''reduce'')
            (\<lambda>xs. readOnly (\<lambda>h. reduce_add H h (Num (Fin 0)) xs)))))"

fun union_loop :: "host \<Rightarrow> val list \<Rightarrow> val list \<Rightarrow> val list comp" where
  "union_loop H seen [] = ret seen"
| "union_loop H seen (arr # arrays) =
     andThen (elements H arr ''forEach'')
       (\<lambda>xs. union_loop H (foldl set_add seen xs) arrays)"

definition union_macro :: "host \<Rightarrow> string list \<Rightarrow> string \<Rightarrow> descriptor" where
  "union_macro H paths =
     macro (GetterFn (\<lambda>this ob key.
       andThen (getArrays H ob paths)
         (\<lambda>arrays. andThen (union_loop H [] arrays) getValues)))"

definition unique :: "host \<Rightarrow> string \<Rightarrow> string \<Rightarrow> descriptor" where
  "unique H path = union_macro H [path]"

text \<open>
  The \<open>forEach\<close> of \<open>uniqueBy\<close>: the keys seen, the values kept, and the fault that
  stopped it, if any.
\<close>

fun uniqueBy_loop ::
  "host \<Rightarrow> heap \<Rightarrow> string \<Rightarrow> val list \<Rightarrow> val list \<Rightarrow> val list \<Rightarrow> error option \<times> val list" where
  "uniqueBy_loop H h key seen values [] = (None, values)"
| "uniqueBy_loop H h key seen values (v # vs) =
     (case member_of H h v key of
        Inl e \<Rightarrow> (Some e, values)
      | Inr keyValue \<Rightarrow>
          (if keyValue \<notin> set seen
           then uniqueBy_loop H h key (set_add seen keyValue) (values @ [v]) vs
           else uniqueBy_loop H h key seen values vs))"

definition uniqueBy :: "host \<Rightarrow> string \<Rightarrow> string \<Rightarrow> string \<Rightarrow> descriptor" where
  "uniqueBy H path key =
     macro (GetterFn (\<lambda>this ob k.
       andThen (getArray H ob path)
         (\<lambda>arr. andThen (alloc (Arr []))
            (\<lambda>values. andThen (elements H arr ''forEach'')
               (\<lambda>xs h. case uniqueBy_loop H h key [] [] xs of
                          (failed, kept) \<Rightarrow>
                            (case values of
                               Ref r \<Rightarrow>
                                 ((case failed of None \<Rightarrow> Inr values | Some e \<Rightarrow> Inl e),
                                  h[r := Arr kept])
                             | _ \<Rightarrow> (Inl Unmodelled, h)))))))"

section \<open>Array macros (the older src/index.ts)\<close>

definition index_filter :: "host \<Rightarrow> string \<Rightarrow> callback \<Rightarrow> string \<Rightarrow> descriptor" where
  "index_filter H path fn =
     macro (GetterFn (\<lambda>this ob key.
       andThen (index_getPath H ob path) (\<lambda>arr. array_filter H fn arr)))"

definition index_filterBy :: "host \<Rightarrow> string \<Rightarrow> string \<Rightarrow> val option \<Rightarrow> string \<Rightarrow> descriptor" where
  "index_filterBy H path key val =
     (if arg val \<noteq> Undefined
      then index_filter H path
             (\<lambda>v i a h. thenE (member_of H h v key) (\<lambda>x. Inr (Bool (strict_eq x (arg val)))))
      else index_filter H path
             (\<lambda>v i a h. thenE (member_of H h v key) (\<lambda>x. Inr (Bool (truthy x)))))"

definition index_sort :: "host \<Rightarrow> string \<Rightarrow> comparator \<Rightarrow> string \<Rightarrow> descriptor" where
  "index_sort H path sortFn =
     macro (GetterFn (\<lambda>this ob key.
       andThen (index_getPath H ob path) (\<lambda>arr. array_sort H sortFn arr)))"

section \<open>A sample host\<close>

text \<open>
  A host for the examples: every user function returns \<open>undefined\<close> and writes nothing,
  no member is inherited and no write is taken over, and the arithmetic is that of
  numbers (a value that is not a number counts as \<open>NaN\<close>).
\<close>

definition to_num :: "val \<Rightarrow> number" where
  "to_num v = (case v of Num n \<Rightarrow> n | Null \<Rightarrow> Fin 0 | Bool b \<Rightarrow> Fin (if b then 1 else 0) | _ \<Rightarrow> NaN)"

fun num_max :: "number \<Rightarrow> number \<Rightarrow> number" where
  "num_max (Fin p) (Fin q) = Fin (max p q)"
| "num_max NaN n = NaN"
| "num_max n NaN = NaN"
| "num_max PosInf n = PosInf"
| "num_max n PosInf = PosInf"
| "num_max NegInf n = n"
| "num_max n NegInf = n"

fun num_min :: "number \<Rightarrow> number \<Rightarrow> number" where
  "num_min (Fin p) (Fin q) = Fin (min p q)"
| "num_min NaN n = NaN"
| "num_min n NaN = NaN"
| "num_min NegInf n = NegInf"
| "num_min n NegInf = NegInf"
| "num_min PosInf n = n"
| "num_min n PosInf = n"

fun num_add :: "number \<Rightarrow> number \<Rightarrow> number" where
  "num_add (Fin p) (Fin q) = Fin (p + q)"
| "num_add NaN n = NaN"
| "num_add n NaN = NaN"
| "num_add PosInf NegInf = NaN"
| "num_add NegInf PosInf = NaN"
| "num_add PosInf n = PosInf"
| "num_add n PosInf = PosInf"
| "num_add NegInf n = NegInf"
| "num_add n NegInf = NegInf"

fun num_lt :: "number \<Rightarrow> number \<Rightarrow> bool" where
  "num_lt (Fin p) (Fin q) = (p < q)"
| "num_lt NaN n = False"
| "num_lt n NaN = False"
| "num_lt PosInf n = False"
| "num_lt n NegInf = False"
| "num_lt NegInf n = True"
| "num_lt n PosInf = True"

definition sample_host :: host where
  "sample_host =
     \<lparr> call_fn = (\<lambda>f this args. ret Undefined),
       proto_member = (\<lambda>ob v k. Undefined),
       write_trap = (\<lambda>ob v k. None),
       math_max = (\<lambda>xs h. Inr (Num (foldl num_max NegInf (map to_num xs)))),
       math_min = (\<lambda>xs h. Inr (Num (foldl num_min PosInf (map to_num xs)))),
       js_add = (\<lambda>a b h. Inr (Num (num_add (to_num a) (to_num b)))),
       js_lt = (\<lambda>a b h. Inr (num_lt (to_num a) (to_num b))) \<rparr>"

text \<open>The same host, where every user function is \<open>() => []\<close>.\<close>

definition fresh_array_host :: host where
  "fresh_array_host = sample_host \<lparr> call_fn := (\<lambda>f this args. alloc (Arr [])) \<rparr>"


text \<open>
  The same host with the inherited \<open>__proto__\<close> of ordinary objects: reading it gives
  the prototype (the object at address \<open>1\<close> in the example), and a write to it is taken
  over by the inherited setter, which stores no member (the prototype chain is not
  modelled, so it does nothing here).
\<close>

definition prototype_host :: host where
  "prototype_host =
     sample_host
       \<lparr> proto_member := (\<lambda>ob v k. if k = ''__proto__'' then Ref 1 else Undefined),
         write_trap := (\<lambda>ob v k. if k = ''__proto__'' then Some (\<lambda>x. ret Undefined) else None) \<rparr>"

section \<open>Basic facts\<close>

lemma andThen_ret: "andThen (ret x) f = f x"
  by (rule ext) (simp add: andThen_def ret_def)

lemma andThen_Inr: "m h = (Inr x, h') \<Longrightarrow> andThen m f h = f x h'"
  by (simp add: andThen_def)

lemma andThen_Inl: "m h = (Inl e, h') \<Longrightarrow> andThen m f h = (Inl e, h')"
  by (simp add: andThen_def)



section \<open>C2: a nullish intermediate value is the result\<close>



section \<open>Facts about the resolver\<close>

text \<open>
  \<open>getPath\<close> writes nothing itself: with a host whose functions write nothing, the
  heap after a resolution is the heap before it.
\<close>

lemma call_get_heap:
  assumes "writes_nothing H"
  shows "snd (call H (member H h cur ''get'') cur args h) = h"
proof (cases "member H h cur ''get''")
  case (Builtin b)
  show ?thesis
  proof (cases b)
    case MapGet
    with Builtin show ?thesis by (simp add: call_def split: option.splits)
  next
    case MapSet
    have "entries_of h cur = None"
    proof (rule ccontr)
      assume "entries_of h cur \<noteq> None"
      then obtain a es where "cur = Ref a" "obj_at h a = Some (MapObj es)"
        by (auto simp: entries_of_def split: val.splits option.splits obj.splits)
      then have "member H h cur ''get'' = Builtin MapGet" by (simp add: member_def)
      with Builtin MapSet show False by simp
    qed
    with Builtin MapSet show ?thesis
      by (auto simp: call_def entries_of_def split: val.splits option.splits obj.splits)
  qed
next
  case (Ref a)
  with assms show ?thesis
    by (auto simp: call_def writes_nothing_def split: option.splits obj.splits)
qed (simp_all add: call_def)

lemma getPath_loop_heap:
  assumes "writes_nothing H"
  shows "snd (getPath_loop H ob segs h) = h"
proof (induction segs arbitrary: ob h)
  case Nil
  show ?case by simp
next
  case (Cons s segs)
  show ?case
  proof (cases "ob = Undefined \<or> ob = Null")
    case True
    then show ?thesis by auto
  next
    case False
    let ?step = "if is_function h (member H h ob ''get'')
                 then call H (member H h ob ''get'') ob [Str s] h
                 else lookup H ob s h"
    have heap: "snd ?step = h"
      using call_get_heap [OF assms, of h ob "[Str s]"] by (simp add: lookup_def readOnly_def)
    obtain r g where step: "?step = (r, g)" by (cases ?step)
    with heap have "g = h" by simp
    with step False Cons.IH show ?thesis by (cases r) simp_all
  qed
qed

lemma getPath_heap: "writes_nothing H \<Longrightarrow> getPath H ob path h = (r, h') \<Longrightarrow> h' = h"
  using getPath_loop_heap [of H ob "split_on CHR ''.'' path" h] by (simp add: getPath_def)

lemma setPath_resolved:
  assumes "objPath = substr path 0 (Some (lastIndexOf path CHR ''.''))"
    and "key = substr path (lastIndexOf path CHR ''.'' + 1) None"
    and "(if objPath \<noteq> [] then getPath H ob objPath else ret ob) h = (Inr c, h')"
  shows "setPath H ob path x h =
           andThen (lookup H c ''set'')
             (\<lambda>setter h.
                if is_function h setter
                then andThen (call H setter c [Str key, x]) (\<lambda>_. ret Undefined) h
                else andThen (assign H c key x) (\<lambda>_. ret Undefined) h) h'"
proof (cases "objPath = []")
  case True
  with assms(3) have eq: "c = ob" "h' = h" by (simp_all add: ret_def)
  show ?thesis
    unfolding setPath_def Let_def assms(1) [symmetric] assms(2) [symmetric] eq
    using True by (simp add: andThen_ret)
next
  case False
  with assms(3) have g: "getPath H ob objPath h = (Inr c, h')" by simp
  show ?thesis
    unfolding setPath_def Let_def assms(1) [symmetric] assms(2) [symmetric]
    using False by (simp add: andThen_Inr [where m = "getPath H ob objPath", OF g])
qed

lemma writes_nothing_sample: "writes_nothing sample_host"
  by (simp add: writes_nothing_def sample_host_def ret_def)

lemma read_macro_getter:
  "read_field (macro (GetterFn f) key) inst = f inst inst key"
  by (simp add: macro_def read_field_def)

section \<open>C5: assigning below a nullish container\<close>

text \<open>
  Claim C5. When the container of the path (the root for a path of one segment, the value
  the container path resolves to otherwise) is \<open>null\<close> or \<open>undefined\<close>,
  \<open>setPath\<close> fails with the fault of reading a member of a nullish value. It writes
  nothing: the heap it leaves is the heap the resolution of the container left, which is
  the initial heap when the host's functions write nothing. No container is created.
\<close>

theorem setPath_null_container:
  assumes "objPath = substr path 0 (Some (lastIndexOf path CHR ''.''))"
    and "(if objPath \<noteq> [] then getPath H ob objPath else ret ob) h = (Inr c, h')"
    and "nullish c"
  shows "setPath H ob path x h = (Inl NullAccess, h') \<and> (writes_nothing H \<longrightarrow> h' = h)"
proof
  have look: "lookup H c ''set'' h' = (Inl NullAccess, h')"
    using assms(3) by (simp add: lookup_def readOnly_def member_of_def)
  show "setPath H ob path x h = (Inl NullAccess, h')"
    using setPath_resolved [OF assms(1) refl assms(2), of x]
      andThen_Inl [where m = "lookup H c ''set''", OF look]
    by simp
  show "writes_nothing H \<longrightarrow> h' = h"
    using assms(2) getPath_heap [of H ob objPath h "Inr c" h']
    by (auto simp: ret_def split: if_splits)
qed

theorem setPath_null_container_witness:
  "setPath sample_host (Ref 0) ''a.b'' (Num (Fin 2)) [Obj []] = (Inl NullAccess, [Obj []])
   \<and> setPath sample_host (Ref 0) ''n.b.c'' (Num (Fin 2)) [Obj [(''n'', Null)]]
       = (Inl NullAccess, [Obj [(''n'', Null)]])
   \<and> setPath sample_host Undefined ''a'' (Num (Fin 2)) [] = (Inl NullAccess, [])"
proof -
  have p1: "''a'' = substr ''a.b'' 0 (Some (lastIndexOf ''a.b'' CHR ''.''))"
    by (simp add: substr_def lastIndexOf_def)
  have p2: "''n.b'' = substr ''n.b.c'' 0 (Some (lastIndexOf ''n.b.c'' CHR ''.''))"
    by (simp add: substr_def lastIndexOf_def)
  have p3: "[] = substr ''a'' 0 (Some (lastIndexOf ''a'' CHR ''.''))"
    by (simp add: substr_def lastIndexOf_def)
  have r1: "(if ''a'' \<noteq> [] then getPath sample_host (Ref 0) ''a'' else ret (Ref 0)) [Obj []]
            = (Inr Undefined, [Obj []])"
    by (simp add: getPath_def sample_host_def member_def obj_at_def is_function_def lookup_def
        readOnly_def member_of_def nullish_def)
  have r2: "(if ''n.b'' \<noteq> [] then getPath sample_host (Ref 0) ''n.b'' else ret (Ref 0))
              [Obj [(''n'', Null)]] = (Inr Null, [Obj [(''n'', Null)]])"
    by (simp add: getPath_def sample_host_def member_def obj_at_def is_function_def lookup_def
        readOnly_def member_of_def nullish_def)
  have r3: "(if [] \<noteq> ([] :: string) then getPath sample_host Undefined [] else ret Undefined) []
            = (Inr Undefined, [])"
    by (simp add: ret_def)
  show ?thesis
    using setPath_null_container [OF p1 r1, of "Num (Fin 2)"]
      setPath_null_container [OF p2 r2, of "Num (Fin 2)"]
      setPath_null_container [OF p3 r3, of "Num (Fin 2)"]
    by (simp add: nullish_def)
qed

section \<open>C4: definitions without a getter or a setter\<close>

text \<open>
  Claim C4. A field installed from a definition without a getter reads as \<open>undefined\<close>
  and the read leaves the heap as it is; a write to a field installed from a definition
  without a setter (a bare getter function, or a descriptor without \<open>set\<close>) is the
  "no setter" fault; a definition with neither does both.
\<close>

theorem macro_without_getter_or_setter:
  "read_field (macro (Descriptor None s) key) inst h = (Inr Undefined, h)
   \<and> write_field (macro (Descriptor g None) key) inst x h = (Inl NoSetter, h)
   \<and> write_field (macro (GetterFn f) key) inst x h = (Inl NoSetter, h)
   \<and> read_field (macro (Descriptor None None) key) inst h = (Inr Undefined, h)
   \<and> write_field (macro (Descriptor None None) key) inst x h = (Inl NoSetter, h)"
  by (simp add: macro_def read_field_def write_field_def ret_def throw_def)

section \<open>C8: reads and its default value\<close>

text \<open>
  Claim C8. A read of a field installed with \<open>reads(path, defaultValue)\<close> returns the
  resolved value when it is not nullish; when it is nullish it returns the default, and
  a default that is a function is called on that read and its result returned. With the
  function \<open>() => []\<close> as the default, two reads in a row return two different
  references, each to an empty array of its own.
\<close>

theorem reads_default_value:
  assumes "getPath H ob path h = (Inr v, h1)"
  shows "read_field (reads H path d key) ob h =
           (if nullish v
            then (if is_function h1 (arg d) then call H (arg d) Undefined [] h1
                  else (Inr (arg d), h1))
            else (Inr v, h1))
         \<and> (nullish v \<and> h1 = h \<and> d = Some (Ref a) \<and> obj_at h a = Some (Fun f)
              \<and> (\<forall>g. call_fn H f Undefined [] g = alloc (Arr []) g)
              \<and> getPath H ob path (h @ [Arr []]) = (Inr v2, h @ [Arr []]) \<and> nullish v2
            \<longrightarrow> read_field (reads H path d key) ob h = (Inr (Ref (length h)), h @ [Arr []])
                \<and> read_field (reads H path d key) ob (h @ [Arr []])
                    = (Inr (Ref (Suc (length h))), h @ [Arr [], Arr []]))"
proof
  show first: "read_field (reads H path d key) ob h =
           (if nullish v
            then (if is_function h1 (arg d) then call H (arg d) Undefined [] h1
                  else (Inr (arg d), h1))
            else (Inr v, h1))"
    using assms by (auto simp: reads_def read_macro_getter andThen_Inr nullish_def ret_def)
  show "nullish v \<and> h1 = h \<and> d = Some (Ref a) \<and> obj_at h a = Some (Fun f)
              \<and> (\<forall>g. call_fn H f Undefined [] g = alloc (Arr []) g)
              \<and> getPath H ob path (h @ [Arr []]) = (Inr v2, h @ [Arr []]) \<and> nullish v2
            \<longrightarrow> read_field (reads H path d key) ob h = (Inr (Ref (length h)), h @ [Arr []])
                \<and> read_field (reads H path d key) ob (h @ [Arr []])
                    = (Inr (Ref (Suc (length h))), h @ [Arr [], Arr []])"
  proof (intro impI, elim conjE)
    assume a: "nullish v" "h1 = h" "d = Some (Ref a)" "obj_at h a = Some (Fun f)"
      "\<forall>g. call_fn H f Undefined [] g = alloc (Arr []) g"
      "getPath H ob path (h @ [Arr []]) = (Inr v2, h @ [Arr []])" "nullish v2"
    have at2: "obj_at (h @ [Arr []]) a = Some (Fun f)"
      using a(4) by (auto simp: obj_at_def nth_append split: if_splits)
    have r1: "read_field (reads H path d key) ob h = (Inr (Ref (length h)), h @ [Arr []])"
      using first a by (simp add: arg_def is_function_def call_def alloc_def)
    have "read_field (reads H path d key) ob (h @ [Arr []])
            = (Inr (Ref (Suc (length h))), h @ [Arr [], Arr []])"
      using a at2
      by (auto simp: reads_def read_macro_getter andThen_Inr nullish_def arg_def is_function_def
          call_def alloc_def)
    with r1 show "read_field (reads H path d key) ob h = (Inr (Ref (length h)), h @ [Arr []])
                \<and> read_field (reads H path d key) ob (h @ [Arr []])
                    = (Inr (Ref (Suc (length h))), h @ [Arr [], Arr []])" by simp
  qed
qed


theorem reads_default_value_witness:
  "read_field (reads fresh_array_host ''foo'' (Some (Ref 1)) ''fooReads'') (Ref 0) [Obj [], Fun 0]
     = (Inr (Ref 2), [Obj [], Fun 0, Arr []])
   \<and> read_field (reads fresh_array_host ''foo'' (Some (Ref 1)) ''fooReads'') (Ref 0)
       [Obj [], Fun 0, Arr []]
     = (Inr (Ref 3), [Obj [], Fun 0, Arr [], Arr []])"
proof -
  let ?h = "[Obj [], Fun 0]"
  have g1: "getPath fresh_array_host (Ref 0) ''foo'' ?h = (Inr Undefined, ?h)"
    by (simp add: getPath_def fresh_array_host_def sample_host_def member_def obj_at_def
        is_function_def lookup_def readOnly_def member_of_def nullish_def)
  have g2: "getPath fresh_array_host (Ref 0) ''foo'' (?h @ [Arr []]) = (Inr Undefined, ?h @ [Arr []])"
    by (simp add: getPath_def fresh_array_host_def sample_host_def member_def obj_at_def
        is_function_def lookup_def readOnly_def member_of_def nullish_def)
  have c: "\<forall>g. call_fn fresh_array_host 0 Undefined [] g = alloc (Arr []) g"
    by (simp add: fresh_array_host_def sample_host_def)
  have o: "obj_at ?h 1 = Some (Fun 0)" by (simp add: obj_at_def)
  show ?thesis
    using reads_default_value [OF g1, of "Some (Ref 1)" "''fooReads''" 1 0 Undefined] g2 c o
    by (simp add: nullish_def eval_nat_numeral is_function_def arg_def call_def obj_at_def
        alloc_def)
qed

section \<open>Facts for the examples and the array methods\<close>

text \<open>The definitions an example unfolds to run the model.\<close>

lemmas eval_defs =
  getPath_def index_getPath_def getPaths_def index_getPaths_def sample_host_def member_def
  obj_at_def is_function_def lookup_def readOnly_def member_of_def nullish_def call_def
  entries_of_def arg_at_def read_macro_getter andThen_def ret_def alloc_def thenE_def

lemma thenE_Inr: "thenE r f = Inr y \<Longrightarrow> \<exists>x. r = Inr x \<and> f x = Inr y"
  by (cases r) (simp_all add: thenE_def)

lemma andThen_Inr_elim:
  "andThen m f h = (Inr r, h') \<Longrightarrow> \<exists>x h1. m h = (Inr x, h1) \<and> f x h1 = (Inr r, h')"
  by (auto simp: andThen_def split: prod.splits sum.splits)

lemma elements_array:
  "obj_at h a = Some (Arr xs) \<Longrightarrow> elements H (Ref a) m h = (Inr xs, h)"
  by (simp add: elements_def nullish_def)

lemma obj_at_append: "a < length h \<Longrightarrow> obj_at (h @ g) a = obj_at h a"
  by (simp add: obj_at_def nth_append)

lemma obj_at_Some_less: "obj_at h a = Some ob \<Longrightarrow> a < length h"
  by (simp add: obj_at_def split: if_splits)

lemma obj_at_fresh: "obj_at (h @ [ob]) (length h) = Some ob"
  by (simp add: obj_at_def)

section \<open>C1: the resolver and the callable get\<close>

text \<open>
  The exported \<open>getPath\<close> of src/utils/index.ts (the documented index has the same
  function) is the resolver of the spec: on every root, path and heap it returns what
  consuming the segments in order returns, calling \<open>current.get(segment)\<close> where
  \<open>get\<close> is callable and reading \<open>current[segment]\<close> where it is not.
\<close>

lemma spec_resolve_nullish: "nullish v \<Longrightarrow> spec_resolve H v segs h = (Inr v, h)"
  by (induction segs arbitrary: h) (simp_all add: ret_def andThen_def spec_step_def)

lemma getPath_loop_spec: "getPath_loop H cur segs h = spec_resolve H cur segs h"
proof (induction segs arbitrary: cur h)
  case Nil
  show ?case by (simp add: ret_def)
next
  case (Cons s segs)
  show ?case
  proof (cases "nullish cur")
    case True
    then show ?thesis
      using spec_resolve_nullish [of cur H "s # segs" h] by (auto simp: nullish_def)
  next
    case False
    then have "cur \<noteq> Undefined \<and> cur \<noteq> Null" by (simp add: nullish_def)
    with False Cons.IH show ?thesis
      by (simp add: andThen_def spec_step_def lookup_def readOnly_def member_of_def
          split: prod.splits sum.splits)
  qed
qed

lemma getPath_follows_spec:
  "getPath H ob path h = spec_resolve H ob (split_on CHR ''.'' path) h"
  by (simp add: getPath_def getPath_loop_spec)

text \<open>
  Claim C1. \<open>getPath\<close> obtains the next value by calling \<open>current.get(segment)\<close>
  whenever the current value exposes a callable \<open>get\<close>. The private \<open>getPath\<close> of the
  older src/index.ts never does: on a field that holds the \<open>Map\<close> \<open>{bar: baz}\<close> it
  reads the member \<open>bar\<close> of the \<open>Map\<close> object, which is \<open>undefined\<close>, where the
  exported \<open>getPath\<close> returns \<open>baz\<close>.
\<close>

theorem index_getPath_ignores_get:
  "index_getPath sample_host (Ref 0) ''foo.bar''
       [Obj [(''foo'', Ref 1)], MapObj [(Str ''bar'', Str ''baz'')]]
     = (Inr Undefined, [Obj [(''foo'', Ref 1)], MapObj [(Str ''bar'', Str ''baz'')]])
   \<and> getPath sample_host (Ref 0) ''foo.bar''
       [Obj [(''foo'', Ref 1)], MapObj [(Str ''bar'', Str ''baz'')]]
     = (Inr (Str ''baz''), [Obj [(''foo'', Ref 1)], MapObj [(Str ''bar'', Str ''baz'')]])"
  by (simp add: eval_defs)

section \<open>C9: the operands of the multi-path macros\<close>

text \<open>
  In the documented index, \<open>and\<close> and \<open>or\<close> fold the values that \<open>getPaths\<close>
  returns, from the left, with the seeds \<open>true\<close> and \<open>false\<close>, and \<open>getPaths\<close>
  resolves each path with \<open>getPath\<close>, in order.
\<close>

lemma and_or_fold:
  assumes "getPaths H ob paths h = (Inr vs, h')"
  shows "read_field (and_macro H paths key) ob h = (Inr (foldl js_and (Bool True) vs), h')
       \<and> read_field (or_macro H paths key) ob h = (Inr (foldl js_or (Bool False) vs), h')"
  using assms by (simp add: and_macro_def or_macro_def read_macro_getter andThen_Inr ret_def)

lemma getPaths_Cons:
  "getPaths H ob (p # ps) h =
     (case getPath H ob p h of
        (Inl e, h1) \<Rightarrow> (Inl e, h1)
      | (Inr v, h1) \<Rightarrow>
          (case getPaths H ob ps h1 of
             (Inl e, h2) \<Rightarrow> (Inl e, h2)
           | (Inr vs, h2) \<Rightarrow> (Inr (v # vs), h2)))"
  by (simp add: getPaths_def andThen_def ret_def split: prod.splits sum.splits)

text \<open>
  Claim C9. Every multi-path macro resolves each of its paths with the path resolver.
  The \<open>getPaths\<close> of the older src/index.ts reads \<open>obj[p]\<close> instead: for the path
  \<open>a.b\<close> on \<open>{a: {b: true}}\<close> it reads the member named \<open>a.b\<close>, so its \<open>and\<close>
  returns \<open>undefined\<close> where the documented one returns \<open>true\<close>.
\<close>

theorem index_and_direct_lookup:
  "read_field (index_and sample_host [''a.b''] ''k'') (Ref 0)
       [Obj [(''a'', Ref 1)], Obj [(''b'', Bool True)]]
     = (Inr Undefined, [Obj [(''a'', Ref 1)], Obj [(''b'', Bool True)]])
   \<and> read_field (and_macro sample_host [''a.b''] ''k'') (Ref 0)
       [Obj [(''a'', Ref 1)], Obj [(''b'', Bool True)]]
     = (Inr (Bool True), [Obj [(''a'', Ref 1)], Obj [(''b'', Bool True)]])"
  by (simp add: index_and_def and_macro_def js_and_def eval_defs)

section \<open>C7: sort and the source array\<close>

text \<open>The sort of the host returns a permutation.\<close>

lemma insert_sorted_mset:
  "insert_sorted after x acc = Inr zs \<Longrightarrow> mset zs = add_mset x (mset acc)"
proof (induction acc arbitrary: zs)
  case Nil
  then show ?case by auto
next
  case (Cons y ys)
  from Cons.prems obtain b where b: "after y x = Inr b"
    and rest: "(if b then Inr (x # y # ys)
                else thenE (insert_sorted after x ys) (\<lambda>zs. Inr (y # zs))) = Inr zs"
    by (auto dest!: thenE_Inr)
  show ?case
  proof (cases b)
    case True
    with rest show ?thesis by auto
  next
    case False
    with rest obtain ws where "insert_sorted after x ys = Inr ws" "zs = y # ws"
      by (auto dest!: thenE_Inr)
    with Cons.IH [of ws] show ?thesis by simp
  qed
qed

lemma sort_into_mset:
  "sort_into after acc xs = Inr ys \<Longrightarrow> mset ys = mset acc + mset xs"
proof (induction xs arbitrary: acc)
  case Nil
  then show ?case by simp
next
  case (Cons x xs)
  from Cons.prems obtain acc' where i: "insert_sorted after x acc = Inr acc'"
    and s: "sort_into after acc' xs = Inr ys"
    by (auto dest!: thenE_Inr)
  from Cons.IH [OF s] insert_sorted_mset [OF i] show ?case by simp
qed

text \<open>
  With a comparator that is consistent (what sorts after is asymmetric, what does not is
  transitive) the result is in order.
\<close>

lemma insert_sorted_set:
  "insert_sorted after x acc = Inr zs \<Longrightarrow> set zs = insert x (set acc)"
  using insert_sorted_mset [of after x acc zs] by (metis set_mset_add_mset_insert set_mset_mset)

lemma insert_sorted_sorted:
  assumes asym: "\<forall>a b. after a b = Inr True \<longrightarrow> after b a = Inr False"
    and trans: "\<forall>a b c. after a b = Inr False \<longrightarrow> after b c = Inr False
                  \<longrightarrow> after a c = Inr False"
  shows "sorted_wrt (\<lambda>a b. after a b = Inr False) acc \<Longrightarrow> insert_sorted after x acc = Inr zs
         \<Longrightarrow> sorted_wrt (\<lambda>a b. after a b = Inr False) zs"
proof (induction acc arbitrary: zs)
  case Nil
  then show ?case by auto
next
  case (Cons y ys)
  from Cons.prems(2) obtain b where b: "after y x = Inr b"
    and rest: "(if b then Inr (x # y # ys)
                else thenE (insert_sorted after x ys) (\<lambda>zs. Inr (y # zs))) = Inr zs"
    by (auto dest!: thenE_Inr)
  show ?case
  proof (cases b)
    case True
    with rest have zs: "zs = x # y # ys" by simp
    from True b asym have xy: "after x y = Inr False" by simp
    have "after x z = Inr False" if "z \<in> set ys" for z
      using Cons.prems(1) that trans xy by auto
    with xy Cons.prems(1) zs show ?thesis by auto
  next
    case False
    with rest obtain ws where i: "insert_sorted after x ys = Inr ws" and zs: "zs = y # ws"
      by (auto dest!: thenE_Inr)
    from Cons.prems(1) have "sorted_wrt (\<lambda>a b. after a b = Inr False) ys" by simp
    from Cons.IH [OF this i] have sw: "sorted_wrt (\<lambda>a b. after a b = Inr False) ws" .
    have "after y z = Inr False" if "z \<in> set ws" for z
      using that insert_sorted_set [OF i] Cons.prems(1) False b by auto
    with sw zs show ?thesis by simp
  qed
qed

lemma sort_into_sorted:
  assumes asym: "\<forall>a b. after a b = Inr True \<longrightarrow> after b a = Inr False"
    and trans: "\<forall>a b c. after a b = Inr False \<longrightarrow> after b c = Inr False
                  \<longrightarrow> after a c = Inr False"
  shows "sorted_wrt (\<lambda>a b. after a b = Inr False) acc \<Longrightarrow> sort_into after acc xs = Inr ys
         \<Longrightarrow> sorted_wrt (\<lambda>a b. after a b = Inr False) ys"
proof (induction xs arbitrary: acc)
  case Nil
  then show ?case by simp
next
  case (Cons x xs)
  from Cons.prems(2) obtain acc' where i: "insert_sorted after x acc = Inr acc'"
    and s: "sort_into after acc' xs = Inr ys"
    by (auto dest!: thenE_Inr)
  from insert_sorted_sorted [OF asym trans Cons.prems(1) i] Cons.IH s show ?case by blast
qed

text \<open>What a read of a sort field does once the source array is known.\<close>

lemma sort_macro_read:
  assumes "getArray H ob path h = (Inr (Ref a), h1)"
    and "obj_at h1 a = Some (Arr xs)"
  shows "read_field (sort_macro H path fn key) ob h =
           (case sort_into (sorts_after fn (h1 @ [Arr xs])) [] xs of
              Inl e \<Rightarrow> (Inl e, h1 @ [Arr xs])
            | Inr ys \<Rightarrow> (Inr (Ref (length h1)), h1 @ [Arr ys]))"
proof -
  have sl: "array_slice H (Ref a) h1 = (Inr (Ref (length h1)), h1 @ [Arr xs])"
    using elements_array [OF assms(2), of H "''slice''"]
    by (simp add: array_slice_def andThen_Inr alloc_def)
  have el: "elements H (Ref (length h1)) ''sort'' (h1 @ [Arr xs]) = (Inr xs, h1 @ [Arr xs])"
    by (rule elements_array) (rule obj_at_fresh)
  have "array_sort H fn (Ref (length h1)) (h1 @ [Arr xs]) =
          (case sort_into (sorts_after fn (h1 @ [Arr xs])) [] xs of
              Inl e \<Rightarrow> (Inl e, h1 @ [Arr xs])
            | Inr ys \<Rightarrow> (Inr (Ref (length h1)), h1 @ [Arr ys]))"
    using el by (simp add: array_sort_def andThen_def readOnly_def split: sum.splits)
  with sl assms(1) show ?thesis
    by (simp add: sort_macro_def read_macro_getter andThen_Inr)
qed

text \<open>
  In the documented index a read of a sort field leaves the source array as it was,
  whether the comparator faults or not, and returns a fresh array that holds a sorted
  permutation of its elements.
\<close>

lemma sort_macro_keeps_source:
  assumes "getArray H ob path h = (Inr (Ref a), h1)"
    and "obj_at h1 a = Some (Arr xs)"
    and "read_field (sort_macro H path fn key) ob h = (r, h2)"
  shows "obj_at h2 a = Some (Arr xs)
       \<and> (\<forall>c. r = Inr c \<longrightarrow>
             c = Ref (length h1) \<and> c \<noteq> Ref a
             \<and> (\<exists>ys. sort_into (sorts_after fn (h1 @ [Arr xs])) [] xs = Inr ys
                     \<and> h2 = h1 @ [Arr ys] \<and> mset ys = mset xs))"
proof -
  have less: "a < length h1" using assms(2) by (rule obj_at_Some_less)
  show ?thesis
  proof (cases "sort_into (sorts_after fn (h1 @ [Arr xs])) [] xs")
    case (Inl e)
    with sort_macro_read [OF assms(1,2), of fn key] assms(3)
    have "r = Inl e" "h2 = h1 @ [Arr xs]" by simp_all
    with less assms(2) show ?thesis by (simp add: obj_at_append)
  next
    case (Inr ys)
    with sort_macro_read [OF assms(1,2), of fn key] assms(3)
    have "r = Inr (Ref (length h1))" "h2 = h1 @ [Arr ys]" by simp_all
    with less assms(2) Inr sort_into_mset [OF Inr] show ?thesis
      by (simp add: obj_at_append)
  qed
qed

lemma sort_macro_sorted:
  assumes "getArray H ob path h = (Inr (Ref a), h1)"
    and "obj_at h1 a = Some (Arr xs)"
    and "read_field (sort_macro H path fn key) ob h = (Inr c, h2)"
    and "\<forall>x y. sorts_after fn (h1 @ [Arr xs]) x y = Inr True
           \<longrightarrow> sorts_after fn (h1 @ [Arr xs]) y x = Inr False"
    and "\<forall>x y z. sorts_after fn (h1 @ [Arr xs]) x y = Inr False
           \<longrightarrow> sorts_after fn (h1 @ [Arr xs]) y z = Inr False
           \<longrightarrow> sorts_after fn (h1 @ [Arr xs]) x z = Inr False"
  shows "\<exists>ys. obj_at h2 (length h1) = Some (Arr ys) \<and> c = Ref (length h1)
           \<and> sorted_wrt (\<lambda>x y. sorts_after fn (h1 @ [Arr xs]) x y = Inr False) ys"
proof -
  from sort_macro_keeps_source [OF assms(1,2,3)]
  obtain ys where c: "c = Ref (length h1)"
    and s: "sort_into (sorts_after fn (h1 @ [Arr xs])) [] xs = Inr ys"
    and h2: "h2 = h1 @ [Arr ys]" by auto
  have "sorted_wrt (\<lambda>x y. sorts_after fn (h1 @ [Arr xs]) x y = Inr False) ys"
    by (rule sort_into_sorted [OF assms(4,5) _ s]) simp
  with c h2 show ?thesis by (simp add: obj_at_fresh)
qed

text \<open>
  Claim C7. A read of a field installed with \<open>sort\<close> returns a sorted copy and leaves
  the source array unchanged. The \<open>sort\<close> of the older src/index.ts sorts the source
  in place and returns it: after one read of a descending sort, \<open>foo\<close> itself is
  \<open>[3, 2, 1]\<close>. The documented \<open>sort\<close> copies first.
\<close>

theorem index_sort_mutates_source:
  "read_field
       (index_sort sample_host ''foo''
          (\<lambda>a b h. Inr (if num_lt (to_num a) (to_num b) then Fin 1 else Fin (- 1))) ''fooSorted'')
       (Ref 0) [Obj [(''foo'', Ref 1)], Arr [Num (Fin 1), Num (Fin 2), Num (Fin 3)]]
     = (Inr (Ref 1), [Obj [(''foo'', Ref 1)], Arr [Num (Fin 3), Num (Fin 2), Num (Fin 1)]])
   \<and> read_field
       (sort_macro sample_host ''foo''
          (\<lambda>a b h. Inr (if num_lt (to_num a) (to_num b) then Fin 1 else Fin (- 1))) ''fooSorted'')
       (Ref 0) [Obj [(''foo'', Ref 1)], Arr [Num (Fin 1), Num (Fin 2), Num (Fin 3)]]
     = (Inr (Ref 2), [Obj [(''foo'', Ref 1)], Arr [Num (Fin 1), Num (Fin 2), Num (Fin 3)],
                      Arr [Num (Fin 3), Num (Fin 2), Num (Fin 1)]])"
  by (simp add: index_sort_def sort_macro_def getArray_def array_sort_def array_slice_def
      elements_def sorts_after_def positive_def to_num_def eval_defs)

section \<open>C10: what filterBy selects\<close>

lemma filter_from_selected:
  "filter_from f i xs = Inr ys \<Longrightarrow> y \<in> set ys \<Longrightarrow> \<exists>j v. f y j = Inr v \<and> truthy v"
proof (induction xs arbitrary: i ys)
  case Nil
  then show ?case by simp
next
  case (Cons x xs)
  from Cons.prems(1) obtain keep zs where k: "f x i = Inr keep"
    and z: "filter_from f (Suc i) xs = Inr zs"
    and ys: "ys = (if truthy keep then x # zs else zs)"
    by (auto dest!: thenE_Inr)
  show ?case
  proof (cases "y \<in> set zs")
    case True
    from Cons.IH [OF z True] show ?thesis .
  next
    case False
    with ys Cons.prems(2) have "truthy keep" "y = x" by (auto split: if_splits)
    with k show ?thesis by blast
  qed
qed

lemma array_filter_selected:
  assumes "array_filter H fn arr h1 = (Inr r, h')"
  shows "\<exists>ys. h' = h1 @ [Arr ys] \<and> r = Ref (length h1)
            \<and> (\<forall>y\<in>set ys. \<exists>j v. fn y j arr h1 = Inr v \<and> truthy v)"
proof -
  from assms obtain xs g where e: "elements H arr ''filter'' h1 = (Inr xs, g)"
    and rest: "andThen (readOnly (\<lambda>h. filter_from (\<lambda>v i. fn v i arr h) 0 xs))
                 (\<lambda>ys. alloc (Arr ys)) g = (Inr r, h')"
    unfolding array_filter_def by (blast dest: andThen_Inr_elim)
  from e have g: "g = h1"
    by (auto simp: elements_def Let_def split: if_splits val.splits option.splits obj.splits)
  from rest obtain ys where f: "filter_from (\<lambda>v i. fn v i arr h1) 0 xs = Inr ys"
    and a: "alloc (Arr ys) h1 = (Inr r, h')"
    unfolding g by (auto simp: readOnly_def dest!: andThen_Inr_elim)
  from a have "h' = h1 @ [Arr ys]" "r = Ref (length h1)" by (auto simp: alloc_def)
  moreover have "\<forall>y\<in>set ys. \<exists>j v. fn y j arr h1 = Inr v \<and> truthy v"
    using filter_from_selected [OF f] by blast
  ultimately show ?thesis by blast
qed

text \<open>A member that is not \<open>undefined\<close> is still there after an allocation.\<close>

lemma member_append:
  assumes "member H h v k \<noteq> Undefined"
  shows "member H (h @ g) v k = member H h v k"
proof (cases v)
  case (Ref a)
  show ?thesis
  proof (cases "a < length h")
    case True
    then show ?thesis by (simp add: member_def Ref obj_at_append)
  next
    case False
    with assms Ref show ?thesis by (simp add: member_def obj_at_def)
  qed
qed (simp_all add: member_def)

text \<open>The two callbacks of \<open>filterBy\<close> keep no element whose key value is \<open>undefined\<close>.\<close>

lemma filterBy_callbacks:
  assumes "thenE (member_of H h y key) (\<lambda>x. Inr (Bool (if eq then strict_eq x w else truthy x)))
             = Inr v"
    and "truthy v" and "eq \<longrightarrow> w \<noteq> Undefined"
  shows "member_of H (h @ g) y key \<noteq> Inr Undefined \<and> (\<exists>x. member_of H (h @ g) y key = Inr x)"
proof -
  from assms(1) obtain x where m: "member_of H h y key = Inr x"
    and v: "v = Bool (if eq then strict_eq x w else truthy x)"
    by (auto dest!: thenE_Inr)
  from v assms(2,3) have "x \<noteq> Undefined" by (auto simp: strict_eq_def split: if_splits)
  with m have "\<not> nullish y" "member H h y key \<noteq> Undefined" "member H h y key = x"
    by (auto simp: member_of_def split: if_splits)
  with member_append [of H h y key g] show ?thesis by (simp add: member_of_def)
qed

lemma filter_macro_selected:
  assumes "read_field (filter_macro H path fn k) ob h = (Inr r, h')"
  shows "\<exists>arr h1 ys. h' = h1 @ [Arr ys] \<and> r = Ref (length h1)
            \<and> (\<forall>y\<in>set ys. \<exists>j v. fn y j arr h1 = Inr v \<and> truthy v)"
  using assms array_filter_selected [of H fn]
  by (auto simp: filter_macro_def read_macro_getter dest!: andThen_Inr_elim) blast

lemma index_filter_selected:
  assumes "read_field (index_filter H path fn k) ob h = (Inr r, h')"
  shows "\<exists>arr h1 ys. h' = h1 @ [Arr ys] \<and> r = Ref (length h1)
            \<and> (\<forall>y\<in>set ys. \<exists>j v. fn y j arr h1 = Inr v \<and> truthy v)"
  using assms array_filter_selected [of H fn]
  by (auto simp: index_filter_def read_macro_getter dest!: andThen_Inr_elim) blast


lemma filterBy_selected:
  assumes "read_field (filterBy H path key w k) ob h = (Inr r, h')"
  shows "\<exists>a ys. r = Ref a \<and> obj_at h' a = Some (Arr ys)
           \<and> (\<forall>y\<in>set ys. \<exists>x. member_of H h' y key = Inr x \<and> x \<noteq> Undefined)"
proof -
  let ?fn = "\<lambda>v (i::nat) (a::val) h.
     thenE (member_of H h v key)
       (\<lambda>x. Inr (Bool (if arg w \<noteq> Undefined then strict_eq x (arg w) else truthy x)))"
  have "filterBy H path key w = filter_macro H path ?fn"
    by (simp add: filterBy_def)
  with assms filter_macro_selected [of H path ?fn k ob h r h']
  obtain arr :: val and h1 ys where h': "h' = h1 @ [Arr ys]" and r: "r = Ref (length h1)"
    and sel: "\<forall>y\<in>set ys. \<exists>j v. ?fn y j arr h1 = Inr v \<and> truthy v"
    by auto
  have "\<exists>x. member_of H h' y key = Inr x \<and> x \<noteq> Undefined" if "y \<in> set ys" for y
  proof -
    from sel that obtain v where "?fn y 0 arr h1 = Inr v" "truthy v" by blast
    from filterBy_callbacks [OF this(1,2), of "[Arr ys]"] h' show ?thesis by auto
  qed
  with h' r show ?thesis by (simp add: obj_at_def)
qed

lemma index_filterBy_selected:
  assumes "read_field (index_filterBy H path key w k) ob h = (Inr r, h')"
  shows "\<exists>a ys. r = Ref a \<and> obj_at h' a = Some (Arr ys)
           \<and> (\<forall>y\<in>set ys. \<exists>x. member_of H h' y key = Inr x \<and> x \<noteq> Undefined)"
proof -
  let ?fn = "\<lambda>v (i::nat) (a::val) h.
     thenE (member_of H h v key)
       (\<lambda>x. Inr (Bool (if arg w \<noteq> Undefined then strict_eq x (arg w) else truthy x)))"
  have "index_filterBy H path key w = index_filter H path ?fn"
    by (simp add: index_filterBy_def)
  with assms index_filter_selected [of H path ?fn k ob h r h']
  obtain arr :: val and h1 ys where h': "h' = h1 @ [Arr ys]" and r: "r = Ref (length h1)"
    and sel: "\<forall>y\<in>set ys. \<exists>j v. ?fn y j arr h1 = Inr v \<and> truthy v"
    by auto
  have "\<exists>x. member_of H h' y key = Inr x \<and> x \<noteq> Undefined" if "y \<in> set ys" for y
  proof -
    from sel that obtain v where "?fn y 0 arr h1 = Inr v" "truthy v" by blast
    from filterBy_callbacks [OF this(1,2), of "[Arr ys]"] h' show ?thesis by auto
  qed
  with h' r show ?thesis by (simp add: obj_at_def)
qed

text \<open>
  Claim C10. \<open>filterBy(path, key, undefined)\<close> is \<open>filterBy(path, key)\<close>, which filters
  by the truthiness of \<open>v[key]\<close>; and whatever the third argument, every element of the
  array a read returns has a key value that is not \<open>undefined\<close>. Both hold for the
  documented \<open>filterBy\<close> and for the one of the older src/index.ts.
\<close>

theorem filterBy_never_selects_undefined:
  "filterBy H path key (Some Undefined) = filterBy H path key None
   \<and> filterBy H path key None
       = filter_macro H path (\<lambda>v i a h. thenE (member_of H h v key) (\<lambda>x. Inr (Bool (truthy x))))
   \<and> index_filterBy H path key (Some Undefined) = index_filterBy H path key None
   \<and> index_filterBy H path key None
       = index_filter H path (\<lambda>v i a h. thenE (member_of H h v key) (\<lambda>x. Inr (Bool (truthy x))))
   \<and> (read_field (filterBy H path key w k) ob h = (Inr r, h') \<longrightarrow>
        (\<exists>a ys. r = Ref a \<and> obj_at h' a = Some (Arr ys)
           \<and> (\<forall>y\<in>set ys. \<exists>x. member_of H h' y key = Inr x \<and> x \<noteq> Undefined)))
   \<and> (read_field (index_filterBy H path key w k) ob h = (Inr r, h') \<longrightarrow>
        (\<exists>a ys. r = Ref a \<and> obj_at h' a = Some (Arr ys)
           \<and> (\<forall>y\<in>set ys. \<exists>x. member_of H h' y key = Inr x \<and> x \<noteq> Undefined)))"
  using filterBy_selected [of H path key w k ob h r h']
    index_filterBy_selected [of H path key w k ob h r h']
  by (simp add: filterBy_def index_filterBy_def arg_def)

theorem filterBy_never_selects_undefined_witness:
  "read_field (filterBy sample_host ''foo'' ''num'' (Some Undefined) ''fooFiltered'') (Ref 0)
       [Obj [(''foo'', Ref 1)], Arr [Ref 2, Ref 3], Obj [(''num'', Num (Fin 1))], Obj []]
     = (Inr (Ref 4),
        [Obj [(''foo'', Ref 1)], Arr [Ref 2, Ref 3], Obj [(''num'', Num (Fin 1))], Obj [],
         Arr [Ref 2]])
   \<and> (\<exists>a ys. Ref 4 = Ref a
         \<and> obj_at [Obj [(''foo'', Ref 1)], Arr [Ref 2, Ref 3], Obj [(''num'', Num (Fin 1))],
                   Obj [], Arr [Ref 2]] a = Some (Arr ys)
         \<and> (\<forall>y\<in>set ys. \<exists>x. member_of sample_host
               [Obj [(''foo'', Ref 1)], Arr [Ref 2, Ref 3], Obj [(''num'', Num (Fin 1))],
                Obj [], Arr [Ref 2]] y ''num'' = Inr x \<and> x \<noteq> Undefined))"
proof -
  let ?h = "[Obj [(''foo'', Ref 1)], Arr [Ref 2, Ref 3], Obj [(''num'', Num (Fin 1))], Obj []]"
  have ev: "read_field (filterBy sample_host ''foo'' ''num'' (Some Undefined) ''fooFiltered'')
              (Ref 0) ?h = (Inr (Ref 4), ?h @ [Arr [Ref 2]])"
    by (simp add: filterBy_def filter_macro_def getArray_def array_filter_def elements_def
        arg_def eval_defs)
  from filterBy_never_selects_undefined
    [of sample_host "''foo''" "''num''" "Some Undefined" "''fooFiltered''" "Ref 0" ?h
      "Ref 4" "?h @ [Arr [Ref 2]]"] ev
  show ?thesis by simp
qed

section \<open>C3: assigning and resolving the same path\<close>















lemmas setPath_eval = setPath_def substr_def lastIndexOf_def Let_def assign_def




text \<open>
  A second way to lose the value: the write changes where the container path leads. On
  \<open>o = {a: o}\<close> the path \<open>a.a\<close> has the container \<open>o\<close>; after \<open>o.a = 5\<close> the
  container path \<open>a\<close> leads to \<open>5\<close>, whose member \<open>a\<close> is \<open>undefined\<close>. The
  \<open>Map\<close> of the test "alias works with Map" keeps the round trip.
\<close>

lemma setPath_getPath_alias_example:
  "setPath sample_host (Ref 0) ''a.a'' (Num (Fin 5)) [Obj [(''a'', Ref 0)]]
     = (Inr Undefined, [Obj [(''a'', Num (Fin 5))]])
   \<and> getPath sample_host (Ref 0) ''a.a'' [Obj [(''a'', Num (Fin 5))]]
     = (Inr Undefined, [Obj [(''a'', Num (Fin 5))]])"
  by (simp add: setPath_eval eval_defs)

lemma setPath_getPath_Map_example:
  "setPath sample_host (Ref 0) ''foo.bar'' (Str ''qux'')
       [Obj [(''foo'', Ref 1)], MapObj [(Str ''bar'', Str ''baz'')]]
     = (Inr Undefined, [Obj [(''foo'', Ref 1)], MapObj [(Str ''bar'', Str ''qux'')]])
   \<and> getPath sample_host (Ref 0) ''foo.bar''
       [Obj [(''foo'', Ref 1)], MapObj [(Str ''bar'', Str ''qux'')]]
     = (Inr (Str ''qux''), [Obj [(''foo'', Ref 1)], MapObj [(Str ''bar'', Str ''qux'')]])"
  by (simp add: setPath_eval eval_defs)

text \<open>
  A third: the host takes the write over. On \<open>o = {}\<close> with the inherited
  \<open>__proto__\<close> the assignment \<open>o.__proto__ = 5\<close> runs the inherited setter and stores
  no member, and \<open>getPath\<close> returns the prototype (the object at address \<open>1\<close>), not
  \<open>5\<close>. The amended claim does not cover this container: its host answers the write.
\<close>

lemma setPath_getPath_proto_example:
  "write_trap prototype_host (Some (Obj [])) (Ref 0) ''__proto__'' \<noteq> None
   \<and> setPath prototype_host (Ref 0) ''__proto__'' (Num (Fin 5)) [Obj [], Obj []]
     = (Inr Undefined, [Obj [], Obj []])
   \<and> getPath prototype_host (Ref 0) ''__proto__'' [Obj [], Obj []]
     = (Inr (Ref 1), [Obj [], Obj []])"
  by (simp add: prototype_host_def setPath_eval eval_defs)

section \<open>C6: array macros on a nullish path\<close>

text \<open>
  \<open>getArray\<close> answers a nullish value with a fresh empty array, and each macro that
  reads its path through \<open>getArray\<close> then works on that array.
\<close>

lemma truthy_nullish: "nullish v \<Longrightarrow> \<not> truthy v"
  by (auto simp: nullish_def)

lemma getArray_nullish:
  assumes "getPath H ob path h = (Inr v, h1)" and "nullish v"
  shows "getArray H ob path h = (Inr (Ref (length h1)), h1 @ [Arr []])"
  using assms by (simp add: getArray_def andThen_def truthy_nullish alloc_def)

lemma elements_fresh: "elements H (Ref (length g)) m (g @ [Arr xs]) = (Inr xs, g @ [Arr xs])"
  by (rule elements_array) (rule obj_at_fresh)

lemma array_filter_empty:
  "array_filter H fn (Ref (length g)) (g @ [Arr []])
     = (Inr (Ref (Suc (length g))), g @ [Arr [], Arr []])"
  by (simp add: array_filter_def elements_fresh andThen_def readOnly_def
      alloc_def)

lemma array_map_empty:
  "array_map H fn (Ref (length g)) (g @ [Arr []])
     = (Inr (Ref (Suc (length g))), g @ [Arr [], Arr []])"
  by (simp add: array_map_def elements_fresh andThen_def readOnly_def
      alloc_def)

lemma filter_macro_nullish:
  assumes "getPath H ob path h = (Inr v, h1)" and "nullish v"
  shows "read_field (filter_macro H path fn key) ob h
           = (Inr (Ref (Suc (length h1))), h1 @ [Arr [], Arr []])"
  by (simp add: andThen_def filter_macro_def read_macro_getter getArray_nullish [OF assms]
      array_filter_empty)

lemma filterBy_nullish:
  assumes "getPath H ob path h = (Inr v, h1)" and "nullish v"
  shows "read_field (filterBy H path k w key) ob h
           = (Inr (Ref (Suc (length h1))), h1 @ [Arr [], Arr []])"
  by (simp add: filterBy_def filter_macro_nullish [OF assms])

lemma map_macro_nullish:
  assumes "getPath H ob path h = (Inr v, h1)" and "nullish v"
  shows "read_field (map_macro H path fn key) ob h
           = (Inr (Ref (Suc (length h1))), h1 @ [Arr [], Arr []])"
  by (simp add: andThen_def map_macro_def read_macro_getter getArray_nullish [OF assms]
      array_map_empty)

lemma mapBy_nullish:
  assumes "getPath H ob path h = (Inr v, h1)" and "nullish v"
  shows "read_field (mapBy H path k key) ob h
           = (Inr (Ref (Suc (length h1))), h1 @ [Arr [], Arr []])"
  by (simp add: mapBy_def map_macro_nullish [OF assms])

lemma sort_macro_nullish:
  assumes "getPath H ob path h = (Inr v, h1)" and "nullish v"
  shows "read_field (sort_macro H path fn key) ob h
           = (Inr (Ref (Suc (length h1))), h1 @ [Arr [], Arr []])"
  using sort_macro_read [OF getArray_nullish [OF assms] obj_at_fresh, of fn key]
  by simp

lemma sortBy_nullish:
  assumes "getPath H ob path h = (Inr v, h1)" and "nullish v"
  shows "read_field (sortBy H path k asc key) ob h
           = (Inr (Ref (Suc (length h1))), h1 @ [Arr [], Arr []])"
  by (simp add: sortBy_def sort_macro_nullish [OF assms])

lemma max_macro_nullish:
  assumes "getPath H ob path h = (Inr v, h1)" and "nullish v"
  shows "read_field (max_macro H path key) ob h = (math_max H [] (h1 @ [Arr []]), h1 @ [Arr []])"
  by (simp add: andThen_def max_macro_def read_macro_getter getArray_nullish [OF assms]
      andThen_def spread_def obj_at_fresh readOnly_def)

lemma min_macro_nullish:
  assumes "getPath H ob path h = (Inr v, h1)" and "nullish v"
  shows "read_field (min_macro H path key) ob h = (math_min H [] (h1 @ [Arr []]), h1 @ [Arr []])"
  by (simp add: andThen_def min_macro_def read_macro_getter getArray_nullish [OF assms]
      andThen_def spread_def obj_at_fresh readOnly_def)

lemma sum_macro_nullish:
  assumes "getPath H ob path h = (Inr v, h1)" and "nullish v"
  shows "read_field (sum_macro H path key) ob h = (Inr (Num (Fin 0)), h1 @ [Arr []])"
  by (simp add: andThen_def sum_macro_def read_macro_getter getArray_nullish [OF assms]
      elements_fresh readOnly_def)

lemma getArrays_single:
  assumes "getPath H ob path h = (Inr v, h1)" and "nullish v"
  shows "getArrays H ob [path] h = (Inr [Ref (length h1)], h1 @ [Arr []])"
  by (simp add: andThen_def getArrays_def getArray_nullish [OF assms] andThen_ret ret_def)

lemma union_macro_nullish:
  assumes "getPath H ob path h = (Inr v, h1)" and "nullish v"
  shows "read_field (union_macro H [path] key) ob h
           = (Inr (Ref (Suc (length h1))), h1 @ [Arr [], Arr []])"
  by (simp add: andThen_def union_macro_def read_macro_getter getArrays_single [OF assms]
      elements_fresh ret_def getValues_def alloc_def)

lemma unique_nullish:
  assumes "getPath H ob path h = (Inr v, h1)" and "nullish v"
  shows "read_field (unique H path key) ob h
           = (Inr (Ref (Suc (length h1))), h1 @ [Arr [], Arr []])"
  by (simp add: unique_def union_macro_nullish [OF assms])

lemma uniqueBy_nullish:
  assumes "getPath H ob path h = (Inr v, h1)" and "nullish v"
  shows "read_field (uniqueBy H path k key) ob h
           = (Inr (Ref (Suc (length h1))), h1 @ [Arr [], Arr []])"
proof -
  have el: "elements H (Ref (length h1)) ''forEach'' (h1 @ [Arr [], Arr []])
              = (Inr [], h1 @ [Arr [], Arr []])"
    by (rule elements_array) (simp add: obj_at_def nth_append)
  have al: "alloc (Arr []) (h1 @ [Arr []]) = (Inr (Ref (Suc (length h1))), h1 @ [Arr [], Arr []])"
    by (simp add: alloc_def)
  show ?thesis
    by (simp add: andThen_def uniqueBy_def read_macro_getter getArray_nullish [OF assms]
        al el list_update_append)
qed

lemma diff_nullish:
  assumes "getPath H ob path h = (Inr v, h1)" and "nullish v"
  shows "read_field (diff H [path] key) ob h = (Inr (Ref (length h1)), h1 @ [Arr []])"
  by (simp add: andThen_def diff_def read_macro_getter getArrays_single [OF assms] ret_def)

lemma intersect_nullish:
  assumes "getPath H ob path h = (Inr v, h1)" and "nullish v"
  shows "read_field (intersect H [path] key) ob h = (Inr (Ref (length h1)), h1 @ [Arr []])"
  by (simp add: andThen_def intersect_def read_macro_getter getArrays_single [OF assms]
      ret_def)

lemma mapM_append:
  "mapM f (xs @ ys) h =
     (case mapM f xs h of
        (Inl e, h1) \<Rightarrow> (Inl e, h1)
      | (Inr as, h1) \<Rightarrow>
          (case mapM f ys h1 of
             (Inl e, h2) \<Rightarrow> (Inl e, h2)
           | (Inr bs, h2) \<Rightarrow> (Inr (as @ bs), h2)))"
  by (induction xs arbitrary: h)
    (auto simp: andThen_def ret_def split: prod.splits sum.splits)

text \<open>
  In a list of paths, a path that resolves to a nullish value contributes a fresh empty
  array at its place; the paths before and after it are resolved as usual.
\<close>

lemma getArrays_nullish_at:
  assumes "getArrays H ob ps g = (Inr as, h)"
    and "getPath H ob path h = (Inr v, h1)" and "nullish v"
    and "getArrays H ob qs (h1 @ [Arr []]) = (Inr bs, h2)"
  shows "getArrays H ob (ps @ path # qs) g = (Inr (as @ Ref (length h1) # bs), h2)"
proof -
  have "mapM (getArray H ob) (path # qs) h = (Inr (Ref (length h1) # bs), h2)"
    using getArray_nullish [OF assms(2,3)] assms(4)
    by (simp add: getArrays_def andThen_def ret_def)
  with assms(1) show ?thesis
    by (simp add: getArrays_def mapM_append)
qed

lemma multi_path_nullish:
  assumes "getArrays H ob ps g = (Inr as, h)"
    and "getPath H ob path h = (Inr v, h1)" and "nullish v"
    and "getArrays H ob qs (h1 @ [Arr []]) = (Inr bs, h2)"
  shows "read_field (diff H (ps @ path # qs) key) ob g
           = diff_loop H (hd (as @ Ref (length h1) # bs)) (tl (as @ Ref (length h1) # bs)) h2"
    and "read_field (intersect H (ps @ path # qs) key) ob g
           = intersect_loop H (hd (as @ Ref (length h1) # bs)) (tl (as @ Ref (length h1) # bs)) h2"
    and "read_field (union_macro H (ps @ path # qs) key) ob g
           = andThen (union_loop H [] (as @ Ref (length h1) # bs)) getValues h2"
proof -
  note ga = getArrays_nullish_at [OF assms]
  show "read_field (diff H (ps @ path # qs) key) ob g
           = diff_loop H (hd (as @ Ref (length h1) # bs)) (tl (as @ Ref (length h1) # bs)) h2"
    by (cases as) (simp_all add: diff_def read_macro_getter andThen_def ga)
  show "read_field (intersect H (ps @ path # qs) key) ob g
           = intersect_loop H (hd (as @ Ref (length h1) # bs)) (tl (as @ Ref (length h1) # bs)) h2"
    by (cases as) (simp_all add: intersect_def read_macro_getter andThen_def ga)
  show "read_field (union_macro H (ps @ path # qs) key) ob g
           = andThen (union_loop H [] (as @ Ref (length h1) # bs)) getValues h2"
    by (simp add: union_macro_def read_macro_getter andThen_Inr [where m = "getArrays H ob (ps @ path # qs)", OF ga])
qed

text \<open>What the three loops do with an empty array.\<close>

lemma setFrom_array:
  "obj_at h b = Some (Arr xs) \<Longrightarrow> setFrom H (Ref b) h = (Inr (foldl set_add [] xs), h)"
  by (simp add: setFrom_def andThen_def elements_array ret_def)

lemma filter_from_all: "filter_from (\<lambda>v i. Inr (Bool True)) i xs = Inr xs"
  by (induction xs arbitrary: i) (simp_all add: thenE_def)

lemma filter_from_none: "filter_from (\<lambda>v i. Inr (Bool False)) i xs = Inr []"
  by (induction xs arbitrary: i) (simp_all add: thenE_def)

lemma diff_loop_empty:
  assumes "obj_at h b = Some (Arr [])" and "obj_at h i = Some (Arr xs)"
  shows "diff_loop H (Ref i) (Ref b # rest) h = diff_loop H (Ref (length h)) rest (h @ [Arr xs])"
  by (simp add: andThen_def setFrom_array [OF assms(1)] array_filter_def
      elements_array [OF assms(2)] readOnly_def filter_from_all alloc_def)

lemma intersect_loop_empty:
  assumes "obj_at h b = Some (Arr [])" and "obj_at h i = Some (Arr xs)"
  shows "intersect_loop H (Ref i) (Ref b # rest) h
           = intersect_loop H (Ref (length h)) rest (h @ [Arr []])"
  by (simp add: andThen_def setFrom_array [OF assms(1)] array_filter_def
      elements_array [OF assms(2)] readOnly_def filter_from_none alloc_def)

lemma union_loop_empty:
  assumes "obj_at h b = Some (Arr [])"
  shows "union_loop H seen (Ref b # rest) h = union_loop H seen rest h"
  by (simp add: andThen_def elements_array [OF assms])

lemmas array_eval =
  getArray_def getArrays_def array_filter_def array_map_def array_slice_def array_sort_def
  elements_def setFrom_def set_add_def getValues_def spread_def

text \<open>
  Claim C6, as amended. Every array macro of the documented index other than
  \<open>collect\<close> treats a path that resolves to \<open>null\<close> or \<open>undefined\<close> as an empty
  array and returns its normal result: \<open>filter\<close>, \<open>filterBy\<close>, \<open>map\<close>, \<open>mapBy\<close>,
  \<open>sort\<close>, \<open>sortBy\<close>, \<open>unique\<close> and \<open>uniqueBy\<close> return a fresh empty array,
  \<open>max\<close> and \<open>min\<close> what the host's \<open>Math.max()\<close> and \<open>Math.min()\<close> return for
  no argument, \<open>sum\<close> returns \<open>0\<close>, and \<open>diff\<close>, \<open>intersect\<close> and \<open>union\<close> run
  their loops with a fresh empty array at the place of the nullish path. \<open>collect\<close>
  returns the resolved values as they are.
\<close>

theorem array_macros_nullish_path:
  assumes "getPath H ob path h = (Inr v, h1)" and "nullish v"
  shows "getArray H ob path h = (Inr (Ref (length h1)), h1 @ [Arr []])
   \<and> read_field (filter_macro H path fn key) ob h
       = (Inr (Ref (Suc (length h1))), h1 @ [Arr [], Arr []])
   \<and> read_field (filterBy H path k w key) ob h
       = (Inr (Ref (Suc (length h1))), h1 @ [Arr [], Arr []])
   \<and> read_field (map_macro H path fm key) ob h
       = (Inr (Ref (Suc (length h1))), h1 @ [Arr [], Arr []])
   \<and> read_field (mapBy H path k key) ob h
       = (Inr (Ref (Suc (length h1))), h1 @ [Arr [], Arr []])
   \<and> read_field (sort_macro H path cmp key) ob h
       = (Inr (Ref (Suc (length h1))), h1 @ [Arr [], Arr []])
   \<and> read_field (sortBy H path k asc key) ob h
       = (Inr (Ref (Suc (length h1))), h1 @ [Arr [], Arr []])
   \<and> read_field (unique H path key) ob h
       = (Inr (Ref (Suc (length h1))), h1 @ [Arr [], Arr []])
   \<and> read_field (uniqueBy H path k key) ob h
       = (Inr (Ref (Suc (length h1))), h1 @ [Arr [], Arr []])
   \<and> read_field (max_macro H path key) ob h
       = (math_max H [] (h1 @ [Arr []]), h1 @ [Arr []])
   \<and> read_field (min_macro H path key) ob h
       = (math_min H [] (h1 @ [Arr []]), h1 @ [Arr []])
   \<and> read_field (sum_macro H path key) ob h = (Inr (Num (Fin 0)), h1 @ [Arr []])
   \<and> read_field (diff H [path] key) ob h = (Inr (Ref (length h1)), h1 @ [Arr []])
   \<and> read_field (intersect H [path] key) ob h = (Inr (Ref (length h1)), h1 @ [Arr []])
   \<and> read_field (union_macro H [path] key) ob h
       = (Inr (Ref (Suc (length h1))), h1 @ [Arr [], Arr []])
   \<and> (getArrays H ob ps g = (Inr as, h) \<and> getArrays H ob qs (h1 @ [Arr []]) = (Inr bs, h2)
      \<longrightarrow> getArrays H ob (ps @ path # qs) g = (Inr (as @ Ref (length h1) # bs), h2)
        \<and> read_field (diff H (ps @ path # qs) key) ob g
            = diff_loop H (hd (as @ Ref (length h1) # bs)) (tl (as @ Ref (length h1) # bs)) h2
        \<and> read_field (intersect H (ps @ path # qs) key) ob g
            = intersect_loop H (hd (as @ Ref (length h1) # bs))
                (tl (as @ Ref (length h1) # bs)) h2
        \<and> read_field (union_macro H (ps @ path # qs) key) ob g
            = andThen (union_loop H [] (as @ Ref (length h1) # bs)) getValues h2)"
proof (intro conjI impI)
  show "getArray H ob path h = (Inr (Ref (length h1)), h1 @ [Arr []])"
    by (rule getArray_nullish [OF assms])
  show "read_field (filter_macro H path fn key) ob h
       = (Inr (Ref (Suc (length h1))), h1 @ [Arr [], Arr []])"
    by (rule filter_macro_nullish [OF assms])
  show "read_field (filterBy H path k w key) ob h
       = (Inr (Ref (Suc (length h1))), h1 @ [Arr [], Arr []])"
    by (rule filterBy_nullish [OF assms])
  show "read_field (map_macro H path fm key) ob h
       = (Inr (Ref (Suc (length h1))), h1 @ [Arr [], Arr []])"
    by (rule map_macro_nullish [OF assms])
  show "read_field (mapBy H path k key) ob h
       = (Inr (Ref (Suc (length h1))), h1 @ [Arr [], Arr []])"
    by (rule mapBy_nullish [OF assms])
  show "read_field (sort_macro H path cmp key) ob h
       = (Inr (Ref (Suc (length h1))), h1 @ [Arr [], Arr []])"
    by (rule sort_macro_nullish [OF assms])
  show "read_field (sortBy H path k asc key) ob h
       = (Inr (Ref (Suc (length h1))), h1 @ [Arr [], Arr []])"
    by (rule sortBy_nullish [OF assms])
  show "read_field (unique H path key) ob h
       = (Inr (Ref (Suc (length h1))), h1 @ [Arr [], Arr []])"
    by (rule unique_nullish [OF assms])
  show "read_field (uniqueBy H path k key) ob h
       = (Inr (Ref (Suc (length h1))), h1 @ [Arr [], Arr []])"
    by (rule uniqueBy_nullish [OF assms])
  show "read_field (max_macro H path key) ob h
       = (math_max H [] (h1 @ [Arr []]), h1 @ [Arr []])"
    by (rule max_macro_nullish [OF assms])
  show "read_field (min_macro H path key) ob h
       = (math_min H [] (h1 @ [Arr []]), h1 @ [Arr []])"
    by (rule min_macro_nullish [OF assms])
  show "read_field (sum_macro H path key) ob h = (Inr (Num (Fin 0)), h1 @ [Arr []])"
    by (rule sum_macro_nullish [OF assms])
  show "read_field (diff H [path] key) ob h = (Inr (Ref (length h1)), h1 @ [Arr []])"
    by (rule diff_nullish [OF assms])
  show "read_field (intersect H [path] key) ob h = (Inr (Ref (length h1)), h1 @ [Arr []])"
    by (rule intersect_nullish [OF assms])
  show "read_field (union_macro H [path] key) ob h
       = (Inr (Ref (Suc (length h1))), h1 @ [Arr [], Arr []])"
    by (rule union_macro_nullish [OF assms])
next
  assume a: "getArrays H ob ps g = (Inr as, h) \<and> getArrays H ob qs (h1 @ [Arr []]) = (Inr bs, h2)"
  then have p: "getArrays H ob ps g = (Inr as, h)"
    and q: "getArrays H ob qs (h1 @ [Arr []]) = (Inr bs, h2)" by simp_all
  show "getArrays H ob (ps @ path # qs) g = (Inr (as @ Ref (length h1) # bs), h2)"
    by (rule getArrays_nullish_at [OF p assms q])
  show "read_field (diff H (ps @ path # qs) key) ob g
            = diff_loop H (hd (as @ Ref (length h1) # bs)) (tl (as @ Ref (length h1) # bs)) h2"
    by (rule multi_path_nullish(1) [OF p assms q])
  show "read_field (intersect H (ps @ path # qs) key) ob g
            = intersect_loop H (hd (as @ Ref (length h1) # bs))
                (tl (as @ Ref (length h1) # bs)) h2"
    by (rule multi_path_nullish(2) [OF p assms q])
  show "read_field (union_macro H (ps @ path # qs) key) ob g
            = andThen (union_loop H [] (as @ Ref (length h1) # bs)) getValues h2"
    by (rule multi_path_nullish(3) [OF p assms q])
qed

theorem array_macros_nullish_path_witness:
  "read_field (filter_macro sample_host ''empty'' (\<lambda>v i a h. Inr (Bool (v = Num (Fin 1))))
       ''emptyFiltered'') (Ref 0)
       [Obj [(''foo'', Ref 1), (''bar'', Ref 2), (''empty'', Null)],
        Arr [Num (Fin 1), Num (Fin 2), Num (Fin 3)], Arr [Num (Fin 2)]]
     = (Inr (Ref 4),
        [Obj [(''foo'', Ref 1), (''bar'', Ref 2), (''empty'', Null)],
         Arr [Num (Fin 1), Num (Fin 2), Num (Fin 3)], Arr [Num (Fin 2)], Arr [], Arr []])
   \<and> read_field (max_macro sample_host ''empty'' ''emptyMax'') (Ref 0)
       [Obj [(''foo'', Ref 1), (''bar'', Ref 2), (''empty'', Null)],
        Arr [Num (Fin 1), Num (Fin 2), Num (Fin 3)], Arr [Num (Fin 2)]]
     = (Inr (Num NegInf),
        [Obj [(''foo'', Ref 1), (''bar'', Ref 2), (''empty'', Null)],
         Arr [Num (Fin 1), Num (Fin 2), Num (Fin 3)], Arr [Num (Fin 2)], Arr []])
   \<and> read_field (diff sample_host [''foo'', ''bar'', ''empty''] ''fooBarEmpty'') (Ref 0)
       [Obj [(''foo'', Ref 1), (''bar'', Ref 2), (''empty'', Null)],
        Arr [Num (Fin 1), Num (Fin 2), Num (Fin 3)], Arr [Num (Fin 2)]]
     = (Inr (Ref 5),
        [Obj [(''foo'', Ref 1), (''bar'', Ref 2), (''empty'', Null)],
         Arr [Num (Fin 1), Num (Fin 2), Num (Fin 3)], Arr [Num (Fin 2)], Arr [],
         Arr [Num (Fin 1), Num (Fin 3)], Arr [Num (Fin 1), Num (Fin 3)]])"
proof -
  let ?h = "[Obj [(''foo'', Ref 1), (''bar'', Ref 2), (''empty'', Null)],
             Arr [Num (Fin 1), Num (Fin 2), Num (Fin 3)], Arr [Num (Fin 2)]]"
  have g: "getPath sample_host (Ref 0) ''empty'' ?h = (Inr Null, ?h)"
    by (simp add: eval_defs)
  have n: "nullish Null" by (simp add: nullish_def)
  have p: "getArrays sample_host (Ref 0) [''foo'', ''bar''] ?h = (Inr [Ref 1, Ref 2], ?h)"
    by (simp add: array_eval eval_defs)
  have q: "getArrays sample_host (Ref 0) [] (?h @ [Arr []]) = (Inr [], ?h @ [Arr []])"
    by (simp add: getArrays_def ret_def)
  note t = array_macros_nullish_path [OF g n]
  note c2 = conjunct2
  have f: "read_field (filter_macro sample_host ''empty''
             (\<lambda>v i a h. Inr (Bool (v = Num (Fin 1)))) ''emptyFiltered'') (Ref 0) ?h
           = (Inr (Ref (Suc (length ?h))), ?h @ [Arr [], Arr []])"
    by (rule t [THEN c2, THEN conjunct1])
  have m: "read_field (max_macro sample_host ''empty'' ''emptyMax'') (Ref 0) ?h
           = (math_max sample_host [] (?h @ [Arr []]), ?h @ [Arr []])"
    by (rule t [THEN c2, THEN c2, THEN c2, THEN c2, THEN c2, THEN c2, THEN c2, THEN c2, THEN c2,
          THEN conjunct1])
  have "read_field (diff sample_host [''foo'', ''bar'', ''empty''] ''fooBarEmpty'') (Ref 0) ?h
           = diff_loop sample_host (Ref 1) [Ref 2, Ref 3] (?h @ [Arr []])"
    using t [THEN c2, THEN c2, THEN c2, THEN c2, THEN c2, THEN c2, THEN c2, THEN c2, THEN c2,
          THEN c2, THEN c2, THEN c2, THEN c2, THEN c2, THEN c2, THEN mp, OF conjI [OF p q],
          THEN c2, THEN conjunct1, of "''fooBarEmpty''"]
    by (simp add: eval_nat_numeral)
  moreover have "diff_loop sample_host (Ref 1) [Ref 2, Ref 3] (?h @ [Arr []])
             = (Inr (Ref 5), ?h @ [Arr [], Arr [Num (Fin 1), Num (Fin 3)],
                                   Arr [Num (Fin 1), Num (Fin 3)]])"
    by (simp add: array_eval eval_defs)
  ultimately have d: "read_field (diff sample_host [''foo'', ''bar'', ''empty''] ''fooBarEmpty'')
                        (Ref 0) ?h
             = (Inr (Ref 5), ?h @ [Arr [], Arr [Num (Fin 1), Num (Fin 3)],
                                   Arr [Num (Fin 1), Num (Fin 3)]])"
    by (rule trans)
  from f m d show ?thesis
    by (simp add: sample_host_def)
qed

text \<open>
  \<open>collect\<close> reads its paths with \<open>getPaths\<close>, not with \<open>getArray\<close>: a field that is
  \<open>null\<close> is collected as \<open>null\<close>, where a field that holds an empty array is
  collected as that array.
\<close>

theorem collect_nullish_counterexample:
  "read_field (collect sample_host [''suit''] ''costumeParts'') (Ref 0) [Obj [(''suit'', Null)]]
     = (Inr (Ref 1), [Obj [(''suit'', Null)], Arr [Null]])
   \<and> read_field (collect sample_host [''suit''] ''costumeParts'') (Ref 0)
       [Obj [(''suit'', Ref 1)], Arr []]
     = (Inr (Ref 2), [Obj [(''suit'', Ref 1)], Arr [], Arr [Ref 1]])"
  by (simp add: collect_def eval_defs)

text \<open>
  In general \<open>collect\<close> returns a fresh array of exactly the values its paths resolve
  to, whatever they are.
\<close>

lemma collect_returns_resolved:
  assumes "getPaths H ob paths h = (Inr vs, h')"
  shows "read_field (collect H paths key) ob h = (Inr (Ref (length h')), h' @ [Arr vs])"
  using assms by (simp add: collect_def read_macro_getter andThen_def alloc_def)

text \<open>
  The \<open>filter\<close> of the older src/index.ts calls \<open>filter\<close> on what its \<open>getPath\<close>
  returns: on a field that is \<open>null\<close> the read faults, where the documented \<open>filter\<close>
  returns an empty array.
\<close>

lemma index_filter_null_faults:
  "read_field (index_filter sample_host ''empty'' (\<lambda>v i a h. Inr (Bool True)) ''emptyFiltered'')
       (Ref 0) [Obj [(''empty'', Null)]]
     = (Inl NullAccess, [Obj [(''empty'', Null)]])
   \<and> read_field (filter_macro sample_host ''empty'' (\<lambda>v i a h. Inr (Bool True)) ''emptyFiltered'')
       (Ref 0) [Obj [(''empty'', Null)]]
     = (Inr (Ref 2), [Obj [(''empty'', Null)], Arr [], Arr []])"
  by (simp add: index_filter_def filter_macro_def array_eval eval_defs)

end
